theory Spec2Isabelle
  imports Complex_Main "HOL-Library.AList"
begin

section \<open>Data model\<close>

text \<open>
  An activity is identified by the pair (database name, code). Exchanges carry the key of
  their input and output activity, the numeric amount, and the value that
  \<^verbatim>\<open>_getAmountOrFormula\<close> yields for them: either a Python function object (which
  \<^verbatim>\<open>rec_func\<close> skips) or a value that can be multiplied (a Python number, or a sympy
  expression over parameter symbols).
\<close>

type_synonym key = "string \<times> string"

text \<open>
  Expressions are kept as the tree of the operations that the source applies; the
  normalisation that sympy performs on its own when it builds a term is not part of
  the repository and is not modelled. Numbers are reals: rounding of floats is abstracted.
  A sympy symbol is identified by its name, as sympy's equality does.
\<close>

datatype expr =
    Num real
  | Symbol string
  | Add expr expr
  | Mul expr expr
  | Div expr expr

text \<open>A Python variable in \<^verbatim>\<open>rec_func\<close> holds a plain number or a sympy object.\<close>

datatype pyval = PyNum real | Sympy expr

datatype amount_or_formula = FunctionType | Value pyval

record exchange =
  ex_input :: key
  ex_output :: key
  ex_amount :: real
  ex_formula :: amount_or_formula

record activity =
  act_database :: string
  act_code :: string
  act_name :: string
  act_unit :: string
  act_exchanges :: "exchange list"

type_synonym database = "key \<Rightarrow> activity option"

text \<open>The two names of the background databases, constants of the helpers module.\<close>

record config =
  BIOSPHERE3_DB_NAME :: string
  ECOINVENT_DB_NAME :: string

datatype error =
    RecursiveExchange
  | UnknownParams "string list"
  | ShapeMismatch
  | DoesNotExist key
  | ZeroDivisionError
  | AttributeError
  | TypeError
  | ValueError
  | IndexError
  | KeyError string
  | NameError string

section \<open>Strings: decimal numerals and slugs\<close>

definition digit_char :: "nat \<Rightarrow> char" where
  "digit_char d = char_of (48 + d)"

text \<open>Python's \<^verbatim>\<open>str(i)\<close> for a non-negative integer.\<close>

fun str_nat :: "nat \<Rightarrow> string" where
  "str_nat n = (if n < 10 then [digit_char n] else str_nat (n div 10) @ [digit_char (n mod 10)])"

declare str_nat.simps [simp del]

definition is_alnum :: "char \<Rightarrow> bool" where
  "is_alnum c = (let n = (of_char c :: nat) in
     (48 \<le> n \<and> n \<le> 57) \<or> (65 \<le> n \<and> n \<le> 90) \<or> (97 \<le> n \<and> n \<le> 122))"

text \<open>
  \<^verbatim>\<open>re.sub('[^0-9a-zA-Z]+', '_', s)\<close>: every maximal run of characters outside the
  class becomes one underscore. The flag says that the previous character was in a run.
\<close>

fun slugify_from :: "bool \<Rightarrow> string \<Rightarrow> string" where
  "slugify_from in_run [] = []"
| "slugify_from in_run (c # cs) =
     (if is_alnum c then c # slugify_from False cs
      else if in_run then slugify_from True cs
      else CHR ''_'' # slugify_from True cs)"

definition slugify :: "string \<Rightarrow> string" where
  "slugify s = slugify_from False s"

section \<open>Symbol allocation\<close>

text \<open>
  \<^verbatim>\<open>act_symbols\<close> is a Python dict from activity keys to symbols; it keeps insertion
  order, and a key is only ever inserted when it is absent. The list holds its items.
\<close>

type_synonym act_symbols = "(key \<times> string) list"

text \<open>
  The loop of \<^verbatim>\<open>act_to_symbol\<close>:
  \<^verbatim>\<open>while symbols(slug) in act_symbols.values(): slug = f"{base_slug}{i}"; i += 1\<close>
\<close>

function slug_loop :: "string \<Rightarrow> string \<Rightarrow> nat \<Rightarrow> string list \<Rightarrow> string" where
  "slug_loop base_slug slug i vals =
     (if slug \<in> set vals then slug_loop base_slug (base_slug @ str_nat i) (i + 1) vals
      else slug)"
  by pat_completeness auto

lemma digit_char_inj: "d < 10 \<Longrightarrow> d' < 10 \<Longrightarrow> digit_char d = digit_char d' \<Longrightarrow> d = d'"
proof -
  assume a: "d < 10" "d' < 10" "digit_char d = digit_char d'"
  then have "(of_char (digit_char d) :: nat) = of_char (digit_char d')" by simp
  then have "(48 + d) mod 256 = (48 + d') mod 256"
    by (simp add: digit_char_def)
  with a(1,2) show ?thesis by simp
qed

lemma str_nat_not_Nil: "str_nat n \<noteq> []"
  by (subst str_nat.simps) simp

lemma str_nat_small: "n < 10 \<Longrightarrow> str_nat n = [digit_char n]"
  by (subst str_nat.simps) simp

lemma str_nat_large: "\<not> n < 10 \<Longrightarrow> str_nat n = str_nat (n div 10) @ [digit_char (n mod 10)]"
  by (subst str_nat.simps) simp

lemma str_nat_inj: "str_nat m = str_nat n \<Longrightarrow> m = n"
proof (induction m arbitrary: n rule: str_nat.induct)
  case (1 m)
  show ?case
  proof (cases "m < 10")
    case True
    show ?thesis
    proof (cases "n < 10")
      case n: True
      from "1.prems" True n have "digit_char m = digit_char n"
        by (simp add: str_nat_small)
      with True n show ?thesis using digit_char_inj by blast
    next
      case n: False
      from "1.prems" True n have "[digit_char m] = str_nat (n div 10) @ [digit_char (n mod 10)]"
        by (simp add: str_nat_small str_nat_large)
      then show ?thesis using str_nat_not_Nil[of "n div 10"] by simp
    qed
  next
    case False
    show ?thesis
    proof (cases "n < 10")
      case n: True
      from "1.prems" False n have "str_nat (m div 10) @ [digit_char (m mod 10)] = [digit_char n]"
        by (simp add: str_nat_small str_nat_large)
      then show ?thesis using str_nat_not_Nil[of "m div 10"] by simp
    next
      case n: False
      from "1.prems" False n
      have "str_nat (m div 10) @ [digit_char (m mod 10)] = str_nat (n div 10) @ [digit_char (n mod 10)]"
        by (simp add: str_nat_large)
      then have e: "str_nat (m div 10) = str_nat (n div 10)" "digit_char (m mod 10) = digit_char (n mod 10)"
        by simp_all
      from "1.IH"[OF False e(1)] have d: "m div 10 = n div 10" .
      have "m mod 10 < 10" "n mod 10 < 10" by simp_all
      with e(2) have "m mod 10 = n mod 10" using digit_char_inj by blast
      with d show ?thesis by (metis div_mult_mod_eq)
    qed
  qed
qed

lemma finite_suffixes: "finite {j. base @ str_nat j \<in> set vals}"
proof -
  have "inj_on (\<lambda>j. base @ str_nat j) {j. base @ str_nat j \<in> set vals}"
    by (auto simp: inj_on_def dest: str_nat_inj)
  moreover have "(\<lambda>j. base @ str_nat j) ` {j. base @ str_nat j \<in> set vals} \<subseteq> set vals" by auto
  ultimately show ?thesis by (meson List.finite_set finite_imageD finite_subset)
qed

text \<open>
  The loop ends: the candidates \<open>base_slug @ str_nat i\<close> are pairwise distinct, so only
  finitely many of them are values of the dict.
\<close>

termination slug_loop
proof (relation "measure (\<lambda>(base, slug, i, vals).
     2 * card {j. i \<le> j \<and> base @ str_nat j \<in> set vals} + (if slug \<in> set vals then 1 else 0))")
  show "wf (measure (\<lambda>(base, slug, i, vals).
     2 * card {j. i \<le> j \<and> base @ str_nat j \<in> set vals} + (if slug \<in> set vals then 1 else 0)))" by simp
next
  fix base_slug slug :: string and i :: nat and vals :: "string list"
  assume "slug \<in> set vals"
  let ?A = "\<lambda>i. {j. i \<le> j \<and> base_slug @ str_nat j \<in> set vals}"
  have fin: "finite (?A i)" using finite_suffixes[of base_slug vals] by (rule rev_finite_subset) auto
  have split: "?A i = (if base_slug @ str_nat i \<in> set vals then insert i (?A (i + 1)) else ?A (i + 1))"
    by (auto simp: Suc_le_eq le_less)
  have notin: "i \<notin> ?A (i + 1)" by simp
  have fin': "finite (?A (i + 1))" using fin by (rule rev_finite_subset) auto
  show "((base_slug, base_slug @ str_nat i, i + 1, vals), (base_slug, slug, i, vals))
       \<in> measure (\<lambda>(base, slug, i, vals).
     2 * card {j. i \<le> j \<and> base @ str_nat j \<in> set vals} + (if slug \<in> set vals then 1 else 0))"
  proof (cases "base_slug @ str_nat i \<in> set vals")
    case True
    then have "card (?A i) = Suc (card (?A (i + 1)))"
      using split fin' notin by simp
    with True \<open>slug \<in> set vals\<close> show ?thesis by simp
  next
    case False
    then have "?A i = ?A (i + 1)" using split by simp
    with False \<open>slug \<in> set vals\<close> show ?thesis by simp
  qed
qed

declare slug_loop.simps [simp del]

text \<open>
  \<^verbatim>\<open>act_to_symbol(db_name, code)\<close>: the activity is read from its database (which
  raises when it does not exist), its name is slugified, and the first free candidate
  is returned.
\<close>

definition act_to_symbol :: "database \<Rightarrow> act_symbols \<Rightarrow> string \<Rightarrow> string \<Rightarrow> error + string" where
  "act_to_symbol db act_syms db_name code =
     (case db (db_name, code) of
        None \<Rightarrow> Inl (DoesNotExist (db_name, code))
      | Some act \<Rightarrow>
          (let base_slug = slugify (act_name act)
           in Inr (slug_loop base_slug base_slug 1 (map snd act_syms))))"

text \<open>
  Lines 295 to 297 of \<^verbatim>\<open>rec_func\<close>: the symbol of a background activity is looked up
  in the dict, and allocated and stored when the key is absent.
\<close>

definition symbol_of_input :: "database \<Rightarrow> act_symbols \<Rightarrow> key \<Rightarrow> error + string \<times> act_symbols" where
  "symbol_of_input db act_syms k =
     (case map_of act_syms k of
        Some s \<Rightarrow> Inr (s, act_syms)
      | None \<Rightarrow>
          (case act_to_symbol db act_syms (fst k) (snd k) of
             Inl e \<Rightarrow> Inl e
           | Inr s \<Rightarrow> Inr (s, act_syms @ [(k, s)])))"

section \<open>Building the expression\<close>

fun lift_expr :: "pyval \<Rightarrow> expr" where
  "lift_expr (PyNum r) = Num r"
| "lift_expr (Sympy e) = e"

text \<open>
  Python arithmetic: two plain numbers give a plain number, anything else is a sympy
  term. Dividing a plain number by zero raises; dividing a sympy term does not.
\<close>

fun py_mul :: "pyval \<Rightarrow> pyval \<Rightarrow> pyval" where
  "py_mul (PyNum a) (PyNum b) = PyNum (a * b)"
| "py_mul a b = Sympy (Mul (lift_expr a) (lift_expr b))"

fun py_add :: "pyval \<Rightarrow> pyval \<Rightarrow> pyval" where
  "py_add (PyNum a) (PyNum b) = PyNum (a + b)"
| "py_add a b = Sympy (Add (lift_expr a) (lift_expr b))"

fun py_div :: "pyval \<Rightarrow> real \<Rightarrow> error + pyval" where
  "py_div (PyNum a) d = (if d = 0 then Inl ZeroDivisionError else Inr (PyNum (a / d)))"
| "py_div (Sympy e) d = Inr (Sympy (Div e (Num d)))"

text \<open>The list literal \<^verbatim>\<open>[BIOSPHERE3_DB_NAME, ECOINVENT_DB_NAME()]\<close> of \<^verbatim>\<open>rec_func\<close>.\<close>

definition background_dbs :: "config \<Rightarrow> string list" where
  "background_dbs cfg = [BIOSPHERE3_DB_NAME cfg, ECOINVENT_DB_NAME cfg]"

text \<open>
  \<^verbatim>\<open>rec_func\<close>, with its loop over the exchanges as the recursion on the list of the
  exchanges still to be processed; \<open>res\<close>, \<open>outputAmount\<close> and the dict of the symbols
  are the variables that the loop updates. The recursion into a sub-activity need not
  end, so the result is an option: \<open>None\<close> is a run that does not return.
\<close>

partial_function (option) rec_func_loop ::
  "config \<Rightarrow> database \<Rightarrow> activity \<Rightarrow> exchange list \<Rightarrow> pyval \<Rightarrow> real \<Rightarrow> act_symbols
     \<Rightarrow> (error + pyval \<times> act_symbols) option"
where
  "rec_func_loop cfg db act exs res outputAmount act_syms =
    (case exs of
       [] \<Rightarrow>
         Some (case py_div res outputAmount of
                 Inl e \<Rightarrow> Inl e
               | Inr v \<Rightarrow> Inr (v, act_syms))
     | exch # rest \<Rightarrow>
        (case ex_formula exch of
           FunctionType \<Rightarrow> rec_func_loop cfg db act rest res outputAmount act_syms
         | Value formula \<Rightarrow>
            if ex_input exch = ex_output exch then
              rec_func_loop cfg db act rest res
                (if ex_amount exch \<noteq> 1 then ex_amount exch else outputAmount) act_syms
            else if fst (ex_input exch) \<in> set (background_dbs cfg) then
              (case symbol_of_input db act_syms (ex_input exch) of
                 Inl e \<Rightarrow> Some (Inl e)
               | Inr (s, act_syms') \<Rightarrow>
                   rec_func_loop cfg db act rest
                     (py_add res (py_mul formula (Sympy (Symbol s)))) outputAmount act_syms')
            else if fst (ex_input exch) = act_database act \<and> snd (ex_input exch) = act_code act then
              Some (Inl RecursiveExchange)
            else
              (case db (ex_input exch) of
                 None \<Rightarrow> Some (Inl (DoesNotExist (ex_input exch)))
               | Some sub_act \<Rightarrow>
                   Option.bind
                     (rec_func_loop cfg db sub_act (act_exchanges sub_act) (PyNum 0) 1 act_syms)
                     (\<lambda>r. case r of
                        Inl e \<Rightarrow> Some (Inl e)
                      | Inr (act_expr, act_syms') \<Rightarrow>
                          rec_func_loop cfg db act rest
                            (py_add res (py_mul formula act_expr)) outputAmount act_syms'))))"

declare rec_func_loop.simps [code]

definition rec_func :: "config \<Rightarrow> database \<Rightarrow> activity \<Rightarrow> act_symbols
     \<Rightarrow> (error + pyval \<times> act_symbols) option" where
  "rec_func cfg db act act_syms = rec_func_loop cfg db act (act_exchanges act) (PyNum 0) 1 act_syms"

text \<open>\<^verbatim>\<open>{v: k for k, v in dic.items()}\<close>: a later item replaces an earlier one with the same value.\<close>

definition reverse_dict :: "('k \<times> 'v) list \<Rightarrow> ('v \<times> 'k) list" where
  "reverse_dict dic = foldl (\<lambda>acc (k, v). AList.update v k acc) [] dic"

definition actToExpression :: "config \<Rightarrow> database \<Rightarrow> activity
     \<Rightarrow> (error + pyval \<times> (string \<times> key) list) option" where
  "actToExpression cfg db act =
     (case rec_func cfg db act [] of
        None \<Rightarrow> None
      | Some (Inl e) \<Rightarrow> Some (Inl e)
      | Some (Inr (expr, act_syms)) \<Rightarrow> Some (Inr (expr, reverse_dict act_syms)))"

section \<open>Unfolding and induction for \<open>rec_func_loop\<close>\<close>

text \<open>One equation for each branch of the loop body.\<close>

lemma rec_func_loop_Nil:
  "rec_func_loop cfg db act [] res out d =
     Some (case py_div res out of Inl e \<Rightarrow> Inl e | Inr v \<Rightarrow> Inr (v, d))"
  by (subst rec_func_loop.simps) simp

lemma rec_func_loop_skip:
  "ex_formula exch = FunctionType \<Longrightarrow>
     rec_func_loop cfg db act (exch # rest) res out d = rec_func_loop cfg db act rest res out d"
  by (subst rec_func_loop.simps) simp

lemma rec_func_loop_self:
  "ex_formula exch = Value fm \<Longrightarrow> ex_input exch = ex_output exch \<Longrightarrow>
     rec_func_loop cfg db act (exch # rest) res out d =
     rec_func_loop cfg db act rest res (if ex_amount exch \<noteq> 1 then ex_amount exch else out) d"
  by (subst rec_func_loop.simps) simp

lemma rec_func_loop_bg:
  "ex_formula exch = Value fm \<Longrightarrow> ex_input exch \<noteq> ex_output exch \<Longrightarrow>
   fst (ex_input exch) \<in> set (background_dbs cfg) \<Longrightarrow>
     rec_func_loop cfg db act (exch # rest) res out d =
     (case symbol_of_input db d (ex_input exch) of
        Inl e \<Rightarrow> Some (Inl e)
      | Inr (s, d1) \<Rightarrow>
          rec_func_loop cfg db act rest (py_add res (py_mul fm (Sympy (Symbol s)))) out d1)"
  by (subst rec_func_loop.simps) simp

lemma rec_func_loop_recursive:
  "ex_formula exch = Value fm \<Longrightarrow> ex_input exch \<noteq> ex_output exch \<Longrightarrow>
   fst (ex_input exch) \<notin> set (background_dbs cfg) \<Longrightarrow>
   fst (ex_input exch) = act_database act \<and> snd (ex_input exch) = act_code act \<Longrightarrow>
     rec_func_loop cfg db act (exch # rest) res out d = Some (Inl RecursiveExchange)"
  by (subst rec_func_loop.simps) simp

lemma rec_func_loop_fg:
  "ex_formula exch = Value fm \<Longrightarrow> ex_input exch \<noteq> ex_output exch \<Longrightarrow>
   fst (ex_input exch) \<notin> set (background_dbs cfg) \<Longrightarrow>
   \<not> (fst (ex_input exch) = act_database act \<and> snd (ex_input exch) = act_code act) \<Longrightarrow>
     rec_func_loop cfg db act (exch # rest) res out d =
     (case db (ex_input exch) of
        None \<Rightarrow> Some (Inl (DoesNotExist (ex_input exch)))
      | Some sub_act \<Rightarrow>
          Option.bind (rec_func_loop cfg db sub_act (act_exchanges sub_act) (PyNum 0) 1 d)
            (\<lambda>r. case r of
               Inl e \<Rightarrow> Some (Inl e)
             | Inr (act_expr, d1) \<Rightarrow>
                 rec_func_loop cfg db act rest (py_add res (py_mul fm act_expr)) out d1))"
  by (subst rec_func_loop.simps) auto

text \<open>
  Induction over the runs that return: one case for each way an iteration of the loop
  can go, with the property for the recursive calls it makes.
\<close>

lemma rec_func_loop_induct [consumes 1, case_names Nil Skip SelfLoop SymbolFails Background
    Recursive Missing SubFails Foreground]:
  assumes run: "rec_func_loop cfg db act exs res out d = Some y"
    and Nil: "\<And>cfg db act res out d.
        P cfg db act [] res out d (case py_div res out of Inl e \<Rightarrow> Inl e | Inr v \<Rightarrow> Inr (v, d))"
    and Skip: "\<And>cfg db act exch rest res out d y.
        \<lbrakk>ex_formula exch = FunctionType;
         rec_func_loop cfg db act rest res out d = Some y;
         P cfg db act rest res out d y\<rbrakk> \<Longrightarrow> P cfg db act (exch # rest) res out d y"
    and SelfLoop: "\<And>cfg db act exch rest res out d y fm.
        \<lbrakk>ex_formula exch = Value fm; ex_input exch = ex_output exch;
         rec_func_loop cfg db act rest res (if ex_amount exch \<noteq> 1 then ex_amount exch else out) d = Some y;
         P cfg db act rest res (if ex_amount exch \<noteq> 1 then ex_amount exch else out) d y\<rbrakk>
        \<Longrightarrow> P cfg db act (exch # rest) res out d y"
    and SymbolFails: "\<And>cfg db act exch rest res out d fm e.
        \<lbrakk>ex_formula exch = Value fm; ex_input exch \<noteq> ex_output exch;
         fst (ex_input exch) \<in> set (background_dbs cfg);
         symbol_of_input db d (ex_input exch) = Inl e\<rbrakk>
        \<Longrightarrow> P cfg db act (exch # rest) res out d (Inl e)"
    and Background: "\<And>cfg db act exch rest res out d y fm s d1.
        \<lbrakk>ex_formula exch = Value fm; ex_input exch \<noteq> ex_output exch;
         fst (ex_input exch) \<in> set (background_dbs cfg);
         symbol_of_input db d (ex_input exch) = Inr (s, d1);
         rec_func_loop cfg db act rest (py_add res (py_mul fm (Sympy (Symbol s)))) out d1 = Some y;
         P cfg db act rest (py_add res (py_mul fm (Sympy (Symbol s)))) out d1 y\<rbrakk>
        \<Longrightarrow> P cfg db act (exch # rest) res out d y"
    and Recursive: "\<And>cfg db act exch rest res out d fm.
        \<lbrakk>ex_formula exch = Value fm; ex_input exch \<noteq> ex_output exch;
         fst (ex_input exch) \<notin> set (background_dbs cfg);
         fst (ex_input exch) = act_database act \<and> snd (ex_input exch) = act_code act\<rbrakk>
        \<Longrightarrow> P cfg db act (exch # rest) res out d (Inl RecursiveExchange)"
    and Missing: "\<And>cfg db act exch rest res out d fm.
        \<lbrakk>ex_formula exch = Value fm; ex_input exch \<noteq> ex_output exch;
         fst (ex_input exch) \<notin> set (background_dbs cfg);
         \<not> (fst (ex_input exch) = act_database act \<and> snd (ex_input exch) = act_code act);
         db (ex_input exch) = None\<rbrakk>
        \<Longrightarrow> P cfg db act (exch # rest) res out d (Inl (DoesNotExist (ex_input exch)))"
    and SubFails: "\<And>cfg db act exch rest res out d fm sub e.
        \<lbrakk>ex_formula exch = Value fm; ex_input exch \<noteq> ex_output exch;
         fst (ex_input exch) \<notin> set (background_dbs cfg);
         \<not> (fst (ex_input exch) = act_database act \<and> snd (ex_input exch) = act_code act);
         db (ex_input exch) = Some sub;
         rec_func_loop cfg db sub (act_exchanges sub) (PyNum 0) 1 d = Some (Inl e);
         P cfg db sub (act_exchanges sub) (PyNum 0) 1 d (Inl e)\<rbrakk>
        \<Longrightarrow> P cfg db act (exch # rest) res out d (Inl e)"
    and Foreground: "\<And>cfg db act exch rest res out d y fm sub act_expr d1.
        \<lbrakk>ex_formula exch = Value fm; ex_input exch \<noteq> ex_output exch;
         fst (ex_input exch) \<notin> set (background_dbs cfg);
         \<not> (fst (ex_input exch) = act_database act \<and> snd (ex_input exch) = act_code act);
         db (ex_input exch) = Some sub;
         rec_func_loop cfg db sub (act_exchanges sub) (PyNum 0) 1 d = Some (Inr (act_expr, d1));
         P cfg db sub (act_exchanges sub) (PyNum 0) 1 d (Inr (act_expr, d1));
         rec_func_loop cfg db act rest (py_add res (py_mul fm act_expr)) out d1 = Some y;
         P cfg db act rest (py_add res (py_mul fm act_expr)) out d1 y\<rbrakk>
        \<Longrightarrow> P cfg db act (exch # rest) res out d y"
  shows "P cfg db act exs res out d y"
proof -
  let ?Q = "\<lambda>cfg db act exs res out d y.
      rec_func_loop cfg db act exs res out d = Some y \<and> P cfg db act exs res out d y"
  have "?Q cfg db act exs res out d y"
  proof (rule rec_func_loop.raw_induct[OF _ run, where P = ?Q])
    fix f cfg db act exs res out d y
    assume IH: "\<And>cfg db act exs res out d y. f cfg db act exs res out d = Some y \<Longrightarrow>
        rec_func_loop cfg db act exs res out d = Some y \<and> P cfg db act exs res out d y"
    assume body: "(case exs of
       [] \<Rightarrow>
         Some (case py_div res out of
                 Inl e \<Rightarrow> Inl e
               | Inr v \<Rightarrow> Inr (v, d))
     | exch # rest \<Rightarrow>
        (case ex_formula exch of
           FunctionType \<Rightarrow> f cfg db act rest res out d
         | Value formula \<Rightarrow>
            if ex_input exch = ex_output exch then
              f cfg db act rest res
                (if ex_amount exch \<noteq> 1 then ex_amount exch else out) d
            else if fst (ex_input exch) \<in> set (background_dbs cfg) then
              (case symbol_of_input db d (ex_input exch) of
                 Inl e \<Rightarrow> Some (Inl e)
               | Inr (s, act_syms') \<Rightarrow>
                   f cfg db act rest
                     (py_add res (py_mul formula (Sympy (Symbol s)))) out act_syms')
            else if fst (ex_input exch) = act_database act \<and> snd (ex_input exch) = act_code act then
              Some (Inl RecursiveExchange)
            else
              (case db (ex_input exch) of
                 None \<Rightarrow> Some (Inl (DoesNotExist (ex_input exch)))
               | Some sub_act \<Rightarrow>
                   Option.bind
                     (f cfg db sub_act (act_exchanges sub_act) (PyNum 0) 1 d)
                     (\<lambda>r. case r of
                        Inl e \<Rightarrow> Some (Inl e)
                      | Inr (act_expr, act_syms') \<Rightarrow>
                          f cfg db act rest
                            (py_add res (py_mul formula act_expr)) out act_syms')))) = Some y"
    show "?Q cfg db act exs res out d y"
    proof (cases exs)
      case Nil
      with body have "y = (case py_div res out of Inl e \<Rightarrow> Inl e | Inr v \<Rightarrow> Inr (v, d))" by simp
      with Nil show ?thesis using assms(2) by (simp add: rec_func_loop_Nil)
    next
      case (Cons exch rest)
      note exs = this
      show ?thesis
      proof (cases "ex_formula exch")
        case FunctionType
        with body exs have "f cfg db act rest res out d = Some y" by simp
        from IH[OF this] FunctionType exs show ?thesis
          by (simp add: rec_func_loop_skip Skip)
      next
        case (Value fm)
        note fm = this
        show ?thesis
        proof (cases "ex_input exch = ex_output exch")
          case True
          with body exs fm
          have "f cfg db act rest res (if ex_amount exch \<noteq> 1 then ex_amount exch else out) d = Some y"
            by simp
          from IH[OF this] show ?thesis
            unfolding exs using rec_func_loop_self[OF fm True] SelfLoop[OF fm True] by simp
        next
          case io: False
          show ?thesis
          proof (cases "fst (ex_input exch) \<in> set (background_dbs cfg)")
            case bg: True
            show ?thesis
            proof (cases "symbol_of_input db d (ex_input exch)")
              case (Inl e)
              with body exs fm io bg have "y = Inl e" by simp
              then show ?thesis
                unfolding exs using rec_func_loop_bg[OF fm io bg] SymbolFails[OF fm io bg Inl] Inl
                by simp
            next
              case (Inr p)
              obtain s d1 where p: "p = (s, d1)" by (cases p)
              note sym = Inr[unfolded p]
              from body exs fm io bg sym
              have "f cfg db act rest (py_add res (py_mul fm (Sympy (Symbol s)))) out d1 = Some y"
                by simp
              from IH[OF this] show ?thesis
                unfolding exs using rec_func_loop_bg[OF fm io bg] Background[OF fm io bg sym] sym
                by simp
            qed
          next
            case bg: False
            show ?thesis
            proof (cases "fst (ex_input exch) = act_database act \<and> snd (ex_input exch) = act_code act")
              case True
              with body exs fm io bg have "y = Inl RecursiveExchange" by simp
              then show ?thesis
                unfolding exs using rec_func_loop_recursive[OF fm io bg True] Recursive[OF fm io bg True]
                by simp
            next
              case self: False
              note unf = rec_func_loop_fg[OF fm io bg self]
              show ?thesis
              proof (cases "db (ex_input exch)")
                case None
                with body exs fm io bg self have "y = Inl (DoesNotExist (ex_input exch))"
                  by (simp split: if_splits)
                then show ?thesis
                  unfolding exs using unf Missing[where db = db, OF fm io bg self None] None by simp
              next
                case (Some sub)
                with body exs fm io bg self
                have "Option.bind (f cfg db sub (act_exchanges sub) (PyNum 0) 1 d)
                   (\<lambda>r. case r of Inl e \<Rightarrow> Some (Inl e)
                       | Inr (act_expr, d1) \<Rightarrow>
                           f cfg db act rest (py_add res (py_mul fm act_expr)) out d1) = Some y"
                  by (simp split: if_splits)
                then obtain r where r: "f cfg db sub (act_exchanges sub) (PyNum 0) 1 d = Some r"
                  and k: "(case r of Inl e \<Rightarrow> Some (Inl e)
                       | Inr (act_expr, d1) \<Rightarrow>
                           f cfg db act rest (py_add res (py_mul fm act_expr)) out d1) = Some y"
                  by (auto simp: bind_eq_Some_conv)
                show ?thesis
                proof (cases r)
                  case (Inl e)
                  with k have y: "y = Inl e" by simp
                  from IH[OF r] Inl
                  have sub: "rec_func_loop cfg db sub (act_exchanges sub) (PyNum 0) 1 d = Some (Inl e)"
                    "P cfg db sub (act_exchanges sub) (PyNum 0) 1 d (Inl e)" by simp_all
                  show ?thesis
                    unfolding exs y using unf SubFails[where db = db, OF fm io bg self Some sub] Some sub(1) by simp
                next
                  case (Inr p)
                  obtain ae d1 where p: "p = (ae, d1)" by (cases p)
                  from IH[OF r] Inr p
                  have sub: "rec_func_loop cfg db sub (act_exchanges sub) (PyNum 0) 1 d = Some (Inr (ae, d1))"
                    "P cfg db sub (act_exchanges sub) (PyNum 0) 1 d (Inr (ae, d1))" by simp_all
                  from k Inr p
                  have "f cfg db act rest (py_add res (py_mul fm ae)) out d1 = Some y" by simp
                  from IH[OF this]
                  have rest: "rec_func_loop cfg db act rest (py_add res (py_mul fm ae)) out d1 = Some y"
                    "P cfg db act rest (py_add res (py_mul fm ae)) out d1 y" by simp_all
                  show ?thesis
                    unfolding exs
                    using unf Foreground[where db = db, OF fm io bg self Some sub rest] Some sub(1) rest(1) by simp
                qed
              qed
            qed
          qed
        qed
      qed
    qed
  qed
  then show ?thesis by simp
qed

text \<open>No key is bound twice and no symbol is bound to two keys.\<close>

definition injective_dict :: "act_symbols \<Rightarrow> bool" where
  "injective_dict d = (distinct (map fst d) \<and> distinct (map snd d))"

text \<open>
  The symbol of an activity is the slug of its name, or that slug followed by a positive
  integer in decimal.
\<close>

definition suffixed_slug :: "database \<Rightarrow> key \<Rightarrow> string \<Rightarrow> bool" where
  "suffixed_slug db k s =
     (\<exists>a. db k = Some a \<and>
        (s = slugify (act_name a) \<or> (\<exists>i\<ge>1. s = slugify (act_name a) @ str_nat i)))"

text \<open>
  The dict after some steps holds the items it held before, unchanged and in the same
  order, followed by new items whose symbols have that form.
\<close>

definition dict_grows :: "database \<Rightarrow> act_symbols \<Rightarrow> act_symbols \<Rightarrow> bool" where
  "dict_grows db d d' =
     (\<exists>new. d' = d @ new \<and> (\<forall>(k, s) \<in> set new. suffixed_slug db k s))"

lemma slug_loop_fresh: "slug_loop b s i vals \<notin> set vals"
  by (induction b s i vals rule: slug_loop.induct) (subst slug_loop.simps, simp)

lemma slug_loop_form: "slug_loop b s i vals = s \<or> (\<exists>j\<ge>i. slug_loop b s i vals = b @ str_nat j)"
proof (induction b s i vals rule: slug_loop.induct)
  case (1 b s i vals)
  show ?case
  proof (cases "s \<in> set vals")
    case True
    with 1 have "slug_loop b (b @ str_nat i) (i + 1) vals = b @ str_nat i \<or>
        (\<exists>j\<ge>i + 1. slug_loop b (b @ str_nat i) (i + 1) vals = b @ str_nat j)" by simp
    moreover have "slug_loop b s i vals = slug_loop b (b @ str_nat i) (i + 1) vals"
      using True by (subst slug_loop.simps) simp
    ultimately show ?thesis by (metis add_leD1 order_refl)
  next
    case False
    then show ?thesis by (subst slug_loop.simps) simp
  qed
qed

lemma slug_loop_least:
  "s \<in> set vals \<Longrightarrow>
     \<exists>j\<ge>i. slug_loop b s i vals = b @ str_nat j \<and>
        (\<forall>j'. i \<le> j' \<and> j' < j \<longrightarrow> b @ str_nat j' \<in> set vals)"
proof (induction b s i vals rule: slug_loop.induct)
  case (1 b s i vals)
  have unf: "slug_loop b s i vals = slug_loop b (b @ str_nat i) (i + 1) vals"
    using "1.prems" by (subst slug_loop.simps) simp
  show ?case
  proof (cases "b @ str_nat i \<in> set vals")
    case True
    from "1.IH"[OF "1.prems" True] obtain j where j: "i + 1 \<le> j"
      "slug_loop b (b @ str_nat i) (i + 1) vals = b @ str_nat j"
      "\<forall>j'. i + 1 \<le> j' \<and> j' < j \<longrightarrow> b @ str_nat j' \<in> set vals" by blast
    have "\<forall>j'. i \<le> j' \<and> j' < j \<longrightarrow> b @ str_nat j' \<in> set vals"
    proof (intro allI impI)
      fix j' assume "i \<le> j' \<and> j' < j"
      then show "b @ str_nat j' \<in> set vals"
        using True j(3) by (cases "j' = i") auto
    qed
    with j unf show ?thesis by (intro exI[of _ j]) simp
  next
    case False
    then have "slug_loop b (b @ str_nat i) (i + 1) vals = b @ str_nat i"
      by (subst slug_loop.simps) simp
    with unf show ?thesis by (intro exI[of _ i]) auto
  qed
qed

lemma dict_grows_refl: "dict_grows db d d"
  by (simp add: dict_grows_def)

lemma dict_grows_trans: "dict_grows db d d' \<Longrightarrow> dict_grows db d' d'' \<Longrightarrow> dict_grows db d d''"
  by (auto simp: dict_grows_def)

lemma symbol_of_input_cases:
  assumes "symbol_of_input db d k = Inr (s, d')"
  obtains (Present) "map_of d k = Some s" "d' = d"
  | (Allocated) a where "map_of d k = None" "db k = Some a"
      "s = slug_loop (slugify (act_name a)) (slugify (act_name a)) 1 (map snd d)"
      "d' = d @ [(k, s)]"
  using assms
  by (auto simp: symbol_of_input_def act_to_symbol_def Let_def split: option.splits sum.splits)

lemma symbol_of_input_grows:
  assumes "symbol_of_input db d k = Inr (s, d')"
  shows "dict_grows db d d'"
  using assms
proof (cases rule: symbol_of_input_cases)
  case Present
  then show ?thesis by (simp add: dict_grows_refl)
next
  case (Allocated a)
  from slug_loop_form[of "slugify (act_name a)" "slugify (act_name a)" 1 "map snd d"] Allocated(2,3)
  have "suffixed_slug db k s" by (auto simp: suffixed_slug_def)
  with Allocated(4) show ?thesis by (simp add: dict_grows_def)
qed

lemma symbol_of_input_injective:
  assumes "symbol_of_input db d k = Inr (s, d')" and "injective_dict d"
  shows "injective_dict d'"
  using assms(1)
proof (cases rule: symbol_of_input_cases)
  case Present
  with assms(2) show ?thesis by simp
next
  case (Allocated a)
  from Allocated(1) have "k \<notin> fst ` set d" by (simp add: map_of_eq_None_iff)
  moreover from Allocated(3) have "s \<notin> snd ` set d"
    using slug_loop_fresh[of _ _ 1 "map snd d"] by simp
  ultimately show ?thesis using assms(2) Allocated(4) by (simp add: injective_dict_def)
qed

lemma symbol_of_input_stored:
  "symbol_of_input db d k = Inr (s, d') \<Longrightarrow> map_of d' k = Some s"
  by (erule symbol_of_input_cases) (simp_all add: map_add_def)

lemma rec_func_loop_dict:
  assumes "rec_func_loop cfg db act exs res out d = Some y"
  shows "\<forall>e d'. y = Inr (e, d') \<longrightarrow> dict_grows db d d' \<and> (injective_dict d \<longrightarrow> injective_dict d')"
  using assms
proof (induction rule: rec_func_loop_induct)
  case (Nil cfg db act res out d)
  then show ?case by (auto simp: dict_grows_refl split: sum.splits)
next
  case (Background cfg db act exch rest res out d y fm s d1)
  from Background.IH symbol_of_input_grows[OF Background.hyps(4)]
    symbol_of_input_injective[OF Background.hyps(4)]
  show ?case by (blast intro: dict_grows_trans)
next
  case (Foreground cfg db act exch rest res out d y fm sub act_expr d1)
  then show ?case by (blast intro: dict_grows_trans)
qed simp_all

lemma injective_dict_keys:
  assumes "injective_dict d" "map_of d k = Some s" "map_of d k' = Some s"
  shows "k = k'"
proof -
  from assms(2,3) have "(k, s) \<in> set d" "(k', s) \<in> set d" by (auto dest: map_of_SomeD)
  with assms(1) show ?thesis
    unfolding injective_dict_def by (metis distinct_map eq_key_imp_eq_value inj_on_def snd_conv
        prod.collapse fst_conv)
qed

section \<open>A model with a sub-activity and two background activities of equal slug\<close>

definition cfg_ex :: config where
  "cfg_ex = \<lparr>BIOSPHERE3_DB_NAME = ''biosphere3'', ECOINVENT_DB_NAME = ''ecoinvent''\<rparr>"

definition mk_exch :: "key \<Rightarrow> key \<Rightarrow> real \<Rightarrow> amount_or_formula \<Rightarrow> exchange" where
  "mk_exch i out a f = \<lparr>ex_input = i, ex_output = out, ex_amount = a, ex_formula = f\<rparr>"

definition mk_act :: "key \<Rightarrow> string \<Rightarrow> exchange list \<Rightarrow> activity" where
  "mk_act k n exs =
     \<lparr>act_database = fst k, act_code = snd k, act_name = n, act_unit = ''unit'', act_exchanges = exs\<rparr>"

definition act_M :: activity where
  "act_M = mk_act (''fg'', ''M'') ''model M''
     [mk_exch (''fg'', ''M'') (''fg'', ''M'') 1 (Value (PyNum 1)),
      mk_exch (''ecoinvent'', ''bg1'') (''fg'', ''M'') (1 / 2) (Value (PyNum (1 / 2))),
      mk_exch (''fg'', ''sub'') (''fg'', ''M'') 2 (Value (PyNum 2))]"

definition act_sub :: activity where
  "act_sub = mk_act (''fg'', ''sub'') ''sub act''
     [mk_exch (''ecoinvent'', ''bg2'') (''fg'', ''sub'') 1 (Value (PyNum 1)),
      mk_exch (''ecoinvent'', ''bg1'') (''fg'', ''sub'') 3 (Value (Sympy (Symbol ''p'')))]"

definition db_ex :: database where
  "db_ex = [(''fg'', ''M'') \<mapsto> act_M, (''fg'', ''sub'') \<mapsto> act_sub,
            (''ecoinvent'', ''bg1'') \<mapsto> mk_act (''ecoinvent'', ''bg1'') ''elec mix'' [],
            (''ecoinvent'', ''bg2'') \<mapsto> mk_act (''ecoinvent'', ''bg2'') ''elec-mix'' []]"

section \<open>Symbol allocation is injective and idempotent\<close>

text \<open>
  Claim C5. Within one pass of \<^verbatim>\<open>actToExpression\<close>, from any state of the dict in
  which no symbol is bound to two keys (the empty dict at the start of the pass is one):
  when the loop returns, two distinct (db, code) pairs never have the same symbol; every
  pair that had a symbol keeps it; looking a bound pair up again returns the symbol it
  already has and leaves the dict as it is; and every symbol added is the slug of the
  activity's name, possibly followed by an integer suffix.
\<close>

theorem symbol_allocation_injective_idempotent:
  assumes "rec_func_loop cfg db act exs res out d = Some (Inr (expr, d'))"
    and "injective_dict d"
  shows "(\<forall>k k' s. map_of d' k = Some s \<and> map_of d' k' = Some s \<longrightarrow> k = k')
       \<and> (\<forall>k s. map_of d k = Some s \<longrightarrow> map_of d' k = Some s)
       \<and> (\<forall>k s. map_of d' k = Some s \<longrightarrow> symbol_of_input db d' k = Inr (s, d'))
       \<and> dict_grows db d d'"
proof -
  from rec_func_loop_dict[OF assms(1)] assms(2)
  have g: "dict_grows db d d'" and i: "injective_dict d'" by simp_all
  from g obtain new where new: "d' = d @ new" by (auto simp: dict_grows_def)
  have "\<forall>k s. map_of d k = Some s \<longrightarrow> map_of d' k = Some s"
    unfolding new by (simp add: map_add_def)
  moreover have "\<forall>k s. map_of d' k = Some s \<longrightarrow> symbol_of_input db d' k = Inr (s, d')"
    by (simp add: symbol_of_input_def)
  moreover have "\<forall>k k' s. map_of d' k = Some s \<and> map_of d' k' = Some s \<longrightarrow> k = k'"
    using injective_dict_keys[OF i] by blast
  ultimately show ?thesis using g by blast
qed

definition syms_M :: act_symbols where
  "syms_M = [((''ecoinvent'', ''bg1''), ''elec_mix''), ((''ecoinvent'', ''bg2''), ''elec_mix1'')]"

definition expr_M :: expr where
  "expr_M =
     Div (Add (Add (Num 0) (Mul (Num (1 / 2)) (Symbol ''elec_mix'')))
            (Mul (Num 2)
               (Div (Add (Add (Num 0) (Mul (Num 1) (Symbol ''elec_mix1'')))
                       (Mul (Symbol ''p'') (Symbol ''elec_mix'')))
                  (Num 1))))
       (Num 1)"

lemma rec_func_loop_act_M:
  "rec_func_loop cfg_ex db_ex act_M (act_exchanges act_M) (PyNum 0) 1 [] =
     Some (Inr (Sympy expr_M, syms_M))"
  by code_simp

theorem symbol_allocation_injective_idempotent_witness:
  "rec_func_loop cfg_ex db_ex act_M (act_exchanges act_M) (PyNum 0) 1 [] =
     Some (Inr (Sympy expr_M, syms_M))
   \<and> injective_dict []
   \<and> symbol_of_input db_ex syms_M (''ecoinvent'', ''bg2'') = Inr (''elec_mix1'', syms_M)
   \<and> dict_grows db_ex [] syms_M"
proof -
  have inj: "injective_dict []" by (simp add: injective_dict_def)
  note th = symbol_allocation_injective_idempotent[OF rec_func_loop_act_M inj]
  have bound: "map_of syms_M (''ecoinvent'', ''bg2'') = Some ''elec_mix1''"
    by (simp add: syms_M_def)
  from th have "\<forall>k s. map_of syms_M k = Some s \<longrightarrow> symbol_of_input db_ex syms_M k = Inr (s, syms_M)"
    by (elim conjE)
  with bound have again: "symbol_of_input db_ex syms_M (''ecoinvent'', ''bg2'') = Inr (''elec_mix1'', syms_M)"
    by (elim allE impE)
  from th have grows: "dict_grows db_ex [] syms_M" by (elim conjE)
  from rec_func_loop_act_M inj again grows show ?thesis by (intro conjI)
qed

section \<open>An exchange of an activity with itself\<close>

text \<open>
  Every exchange that \<^verbatim>\<open>act.exchanges()\<close> yields has the activity \<open>act\<close> as its output.
\<close>

definition owned :: "activity \<Rightarrow> bool" where
  "owned act \<longleftrightarrow> (\<forall>e \<in> set (act_exchanges act). ex_output e = (act_database act, act_code act))"

text \<open>
  With exchanges like that, the test \<^verbatim>\<open>exch['input'] == exch['output']\<close> takes every
  exchange whose input is the activity itself, and the \<^verbatim>\<open>raise\<close> that follows it in the
  loop body is never reached.
\<close>

lemma owned_never_recursive:
  assumes "rec_func_loop cfg db act exs res out d = Some y"
  shows "set exs \<subseteq> set (act_exchanges act) \<longrightarrow> owned act \<longrightarrow> (\<forall>a \<in> ran db. owned a)
     \<longrightarrow> y \<noteq> Inl RecursiveExchange"
  using assms
proof (induction rule: rec_func_loop_induct)
  case (Nil cfg db act res out d)
  show ?case by (cases res) (auto split: sum.splits)
next
  case (Skip cfg db act exch rest res out d y)
  then show ?case by simp
next
  case (SelfLoop cfg db act exch rest res out d y fm)
  then show ?case by simp
next
  case (SymbolFails cfg db act exch rest res out d fm e)
  then show ?case
    by (auto simp: symbol_of_input_def act_to_symbol_def Let_def split: option.splits sum.splits)
next
  case (Background cfg db act exch rest res out d y fm s d1)
  then show ?case by simp
next
  case (Recursive cfg db act exch rest res out d fm)
  show ?case
  proof (intro impI)
    assume "set (exch # rest) \<subseteq> set (act_exchanges act)" and "owned act"
    then have "ex_output exch = (act_database act, act_code act)" by (simp add: owned_def)
    with Recursive(4) have "ex_input exch = ex_output exch" by (simp add: prod_eq_iff)
    with Recursive(2) show "Inl RecursiveExchange \<noteq> (Inl RecursiveExchange :: error + pyval \<times> act_symbols)"
      by simp
  qed
next
  case (Missing cfg db act exch rest res out d fm)
  show ?case by simp
next
  case (SubFails cfg db act exch rest res out d fm sub e)
  from SubFails(5) have "sub \<in> ran db" by (rule ranI)
  with SubFails.IH show ?case by simp
next
  case (Foreground cfg db act exch rest res out d y fm sub act_expr d1)
  then show ?case by simp
qed

text \<open>
  A model \<open>R\<close> with a sub-activity \<open>S\<close> that lists, beside its production exchange, a
  second exchange whose input is \<open>S\<close> itself.
\<close>

definition exch_R_prod :: exchange where
  "exch_R_prod = mk_exch (''fg'', ''R'') (''fg'', ''R'') 1 (Value (PyNum 1))"

definition exch_R_bg :: exchange where
  "exch_R_bg = mk_exch (''ecoinvent'', ''bg1'') (''fg'', ''R'') 3 (Value (PyNum 3))"

definition exch_R_S :: exchange where
  "exch_R_S = mk_exch (''fg'', ''S'') (''fg'', ''R'') 1 (Value (Sympy (Symbol ''p'')))"

definition exch_S_prod :: exchange where
  "exch_S_prod = mk_exch (''fg'', ''S'') (''fg'', ''S'') 2 (Value (PyNum 2))"

definition exch_S_self :: exchange where
  "exch_S_self = mk_exch (''fg'', ''S'') (''fg'', ''S'') (1 / 2) (Value (PyNum (1 / 2)))"

definition exch_S_bg :: exchange where
  "exch_S_bg = mk_exch (''ecoinvent'', ''bg1'') (''fg'', ''S'') 4 (Value (PyNum 4))"

definition act_S :: activity where
  "act_S = mk_act (''fg'', ''S'') ''S'' [exch_S_prod, exch_S_self, exch_S_bg]"

definition act_R :: activity where
  "act_R = mk_act (''fg'', ''R'') ''R'' [exch_R_prod, exch_R_bg, exch_R_S]"

definition db_rec :: database where
  "db_rec = [(''fg'', ''R'') \<mapsto> act_R, (''fg'', ''S'') \<mapsto> act_S,
             (''ecoinvent'', ''bg1'') \<mapsto> mk_act (''ecoinvent'', ''bg1'') ''elec mix'' []]"

text \<open>
  Claim C6 fails on this model. The exchange \<open>exch_S_self\<close> of \<open>S\<close> has \<open>S\<close> itself as
  its input and is not the production exchange of \<open>S\<close>, yet \<^verbatim>\<open>actToExpression\<close> raises
  nothing: the exchange is taken for a self-loop, its amount replaces the amount of the
  production exchange as \<open>outputAmount\<close>, and an expression is returned.
\<close>

theorem self_referencing_exchange_returns_expression:
  "act_exchanges act_S = [exch_S_prod, exch_S_self, exch_S_bg]
   \<and> ex_input exch_S_self = (act_database act_S, act_code act_S)
   \<and> ex_output exch_S_self = (act_database act_S, act_code act_S)
   \<and> exch_S_self \<noteq> exch_S_prod
   \<and> actToExpression cfg_ex db_rec act_R =
       Some (Inr (Sympy (Div (Add (Add (Num 0) (Mul (Num 3) (Symbol ''elec_mix'')))
                               (Mul (Symbol ''p'')
                                  (Div (Add (Num 0) (Mul (Num 4) (Symbol ''elec_mix'')))
                                     (Num (1 / 2)))))
                          (Num 1)),
                  [(''elec_mix'', (''ecoinvent'', ''bg1''))]))"
proof -
  have "act_exchanges act_S = [exch_S_prod, exch_S_self, exch_S_bg]"
    by (simp add: act_S_def mk_act_def)
  moreover have "ex_input exch_S_self = (act_database act_S, act_code act_S)"
    by (simp add: act_S_def exch_S_self_def mk_act_def mk_exch_def)
  moreover have "ex_output exch_S_self = (act_database act_S, act_code act_S)"
    by (simp add: act_S_def exch_S_self_def mk_act_def mk_exch_def)
  moreover have "exch_S_self \<noteq> exch_S_prod"
    by (simp add: exch_S_self_def exch_S_prod_def mk_exch_def)
  moreover have "actToExpression cfg_ex db_rec act_R =
       Some (Inr (Sympy (Div (Add (Add (Num 0) (Mul (Num 3) (Symbol ''elec_mix'')))
                               (Mul (Symbol ''p'')
                                  (Div (Add (Num 0) (Mul (Num 4) (Symbol ''elec_mix'')))
                                     (Num (1 / 2)))))
                          (Num 1)),
                  [(''elec_mix'', (''ecoinvent'', ''bg1''))]))"
    by code_simp
  ultimately show ?thesis by (intro conjI)
qed

section \<open>Termination of the traversal\<close>

text \<open>
  Two foreground activities that reference each other. No exchange has its own activity
  as input, so the check for a recursive exchange never fires.
\<close>

definition exch_A_B :: exchange where
  "exch_A_B = mk_exch (''fg'', ''B'') (''fg'', ''A'') 1 (Value (PyNum 1))"

definition exch_B_A :: exchange where
  "exch_B_A = mk_exch (''fg'', ''A'') (''fg'', ''B'') 1 (Value (PyNum 1))"

definition act_A :: activity where
  "act_A = mk_act (''fg'', ''A'') ''A'' [exch_A_B]"

definition act_B :: activity where
  "act_B = mk_act (''fg'', ''B'') ''B'' [exch_B_A]"

definition db_cyc :: database where
  "db_cyc = [(''fg'', ''A'') \<mapsto> act_A, (''fg'', ''B'') \<mapsto> act_B]"

text \<open>No exchange of the model or of an activity of the database has its own activity as input.\<close>

definition no_self_reference :: "database \<Rightarrow> activity \<Rightarrow> bool" where
  "no_self_reference db model \<longleftrightarrow>
     (\<forall>a. (a = model \<or> a \<in> ran db) \<longrightarrow>
        (\<forall>e \<in> set (act_exchanges a). ex_input e \<noteq> (act_database a, act_code a)))"

text \<open>The two states of the loop that the run on the cycle alternates between.\<close>

definition on_cycle :: "activity \<Rightarrow> exchange list \<Rightarrow> bool" where
  "on_cycle act exs \<longleftrightarrow> (act = act_A \<and> exs = [exch_A_B]) \<or> (act = act_B \<and> exs = [exch_B_A])"

lemma on_cycle_Nil: "\<not> on_cycle act []"
  by (simp add: on_cycle_def)

lemma on_cycle_Cons:
  assumes "on_cycle act (exch # rest)"
  shows "ex_formula exch \<noteq> FunctionType"
    and "ex_input exch \<noteq> ex_output exch"
    and "fst (ex_input exch) \<notin> set (background_dbs cfg_ex)"
    and "\<not> (fst (ex_input exch) = act_database act \<and> snd (ex_input exch) = act_code act)"
    and "db_cyc (ex_input exch) \<noteq> None"
    and "db_cyc (ex_input exch) = Some sub \<Longrightarrow> on_cycle sub (act_exchanges sub)"
proof -
  from assms consider "act = act_A" "exch = exch_A_B" | "act = act_B" "exch = exch_B_A"
    by (auto simp: on_cycle_def)
  note c = this
  show "ex_formula exch \<noteq> FunctionType"
    by (cases rule: c) (simp_all add: exch_A_B_def exch_B_A_def mk_exch_def)
  show "ex_input exch \<noteq> ex_output exch"
    by (cases rule: c) (simp_all add: exch_A_B_def exch_B_A_def mk_exch_def)
  show "fst (ex_input exch) \<notin> set (background_dbs cfg_ex)"
    by (cases rule: c)
      (simp_all add: exch_A_B_def exch_B_A_def mk_exch_def background_dbs_def cfg_ex_def)
  show "\<not> (fst (ex_input exch) = act_database act \<and> snd (ex_input exch) = act_code act)"
    by (cases rule: c)
      (simp_all add: exch_A_B_def exch_B_A_def mk_exch_def act_A_def act_B_def mk_act_def)
  show "db_cyc (ex_input exch) \<noteq> None"
    by (cases rule: c) (simp_all add: exch_A_B_def exch_B_A_def mk_exch_def db_cyc_def)
  show "on_cycle sub (act_exchanges sub)" if "db_cyc (ex_input exch) = Some sub"
  proof (cases rule: c)
    case 1
    with that have "sub = act_B" by (simp add: exch_A_B_def mk_exch_def db_cyc_def)
    then show ?thesis by (simp add: on_cycle_def act_B_def mk_act_def)
  next
    case 2
    with that have "sub = act_A" by (simp add: exch_B_A_def mk_exch_def db_cyc_def)
    then show ?thesis by (simp add: on_cycle_def act_A_def mk_act_def)
  qed
qed

lemma cycle_never_returns:
  assumes "rec_func_loop cfg db act exs res out d = Some y"
  shows "cfg = cfg_ex \<longrightarrow> db = db_cyc \<longrightarrow> \<not> on_cycle act exs"
  using assms
proof (induction rule: rec_func_loop_induct)
  case (Nil cfg db act res out d)
  then show ?case by (simp add: on_cycle_Nil)
next
  case (Skip cfg db act exch rest res out d y)
  then show ?case using on_cycle_Cons(1) by blast
next
  case (SelfLoop cfg db act exch rest res out d y fm)
  then show ?case using on_cycle_Cons(2) by blast
next
  case (SymbolFails cfg db act exch rest res out d fm e)
  then show ?case using on_cycle_Cons(3) by blast
next
  case (Background cfg db act exch rest res out d y fm s d1)
  then show ?case using on_cycle_Cons(3) by blast
next
  case (Recursive cfg db act exch rest res out d fm)
  then show ?case using on_cycle_Cons(4) by blast
next
  case (Missing cfg db act exch rest res out d fm)
  then show ?case using on_cycle_Cons(5) by blast
next
  case (SubFails cfg db act exch rest res out d fm sub e)
  from SubFails.hyps(5) SubFails.IH show ?case using on_cycle_Cons(6) by blast
next
  case (Foreground cfg db act exch rest res out d y fm sub act_expr d1)
  from Foreground.hyps(5) Foreground.IH(1) show ?case using on_cycle_Cons(6) by blast
qed

lemma rec_func_act_A: "rec_func cfg_ex db_cyc act_A [] = None"
proof (cases "rec_func cfg_ex db_cyc act_A []")
  case None
  then show ?thesis .
next
  case (Some y)
  then have "rec_func_loop cfg_ex db_cyc act_A [exch_A_B] (PyNum 0) 1 [] = Some y"
    by (simp add: rec_func_def act_A_def mk_act_def)
  from cycle_never_returns[OF this] show ?thesis by (simp add: on_cycle_def)
qed

lemma no_self_reference_db_cyc: "no_self_reference db_cyc act_A"
proof -
  have "ran db_cyc \<subseteq> {act_A, act_B}" by (auto simp: db_cyc_def ran_def)
  then have a: "\<And>a. a = act_A \<or> a \<in> ran db_cyc \<Longrightarrow> a = act_A \<or> a = act_B" by auto
  have "\<forall>e \<in> set (act_exchanges act_A). ex_input e \<noteq> (act_database act_A, act_code act_A)"
    by (simp add: act_A_def exch_A_B_def mk_act_def mk_exch_def)
  moreover
  have "\<forall>e \<in> set (act_exchanges act_B). ex_input e \<noteq> (act_database act_B, act_code act_B)"
    by (simp add: act_B_def exch_B_A_def mk_act_def mk_exch_def)
  ultimately show ?thesis
    unfolding no_self_reference_def using a by blast
qed

text \<open>
  Claim C1 as stated fails: on this model, which has no self-referencing exchange,
  \<^verbatim>\<open>actToExpression\<close> does not return. (A Python interpreter ends such a run when its
  stack is exhausted; no path of the recursion reaches a base case.)
\<close>

theorem indirect_cycle_does_not_terminate:
  "no_self_reference db_cyc act_A \<and> actToExpression cfg_ex db_cyc act_A = None"
  using no_self_reference_db_cyc rec_func_act_A by (simp add: actToExpression_def)

text \<open>
  \<open>b\<close> is the activity that \<^verbatim>\<open>rec_func\<close> recurses into for some exchange of \<open>a\<close>: the
  exchange is not skipped, is not a self-loop, its input is in no background database and
  is not \<open>a\<close> itself, and the database holds \<open>b\<close> under the key of the input.
\<close>

definition sub_activity :: "config \<Rightarrow> database \<Rightarrow> activity \<Rightarrow> activity \<Rightarrow> bool" where
  "sub_activity cfg db a b \<longleftrightarrow>
     (\<exists>e \<in> set (act_exchanges a).
        ex_formula e \<noteq> FunctionType \<and> ex_input e \<noteq> ex_output e \<and>
        fst (ex_input e) \<notin> set (background_dbs cfg) \<and>
        \<not> (fst (ex_input e) = act_database a \<and> snd (ex_input e) = act_code a) \<and>
        db (ex_input e) = Some b)"

text \<open>
  The activities that the references to sub-activities lead to from the model.
\<close>

inductive_set visited :: "config \<Rightarrow> database \<Rightarrow> activity \<Rightarrow> activity set"
  for cfg :: config and db :: database and model :: activity
where
  Model: "model \<in> visited cfg db model"
| Sub: "\<lbrakk>a \<in> visited cfg db model; sub_activity cfg db a b\<rbrakk> \<Longrightarrow> b \<in> visited cfg db model"

text \<open>
  The references to sub-activities that are followed from the model, as pairs of the
  activity referred to and the activity referring to it.
\<close>

definition references :: "config \<Rightarrow> database \<Rightarrow> activity \<Rightarrow> (activity \<times> activity) set" where
  "references cfg db model = {(b, a). a \<in> visited cfg db model \<and> sub_activity cfg db a b}"

lemma wf_references:
  assumes "finite (visited cfg db model)" and "acyclic (references cfg db model)"
  shows "wf (references cfg db model)"
proof -
  have "references cfg db model \<subseteq> visited cfg db model \<times> visited cfg db model"
    by (auto simp: references_def intro: visited.Sub)
  with assms(1) have "finite (references cfg db model)"
    by (meson finite_SigmaI finite_subset)
  then show ?thesis using assms(2) by (rule finite_acyclic_wf)
qed

lemma rec_func_loop_returns:
  assumes w: "wf (references cfg db model)"
  shows "a \<in> visited cfg db model \<Longrightarrow> set exs \<subseteq> set (act_exchanges a) \<Longrightarrow>
     \<exists>y. rec_func_loop cfg db a exs res out d = Some y"
proof (induction a arbitrary: exs res out d rule: wf_induct_rule[OF w])
  case (1 a)
  note outer = 1(1) and ok = 1(2)
  from 1(3) show ?case
  proof (induction exs arbitrary: res out d)
    case Nil
    show ?case by (simp add: rec_func_loop_Nil)
  next
    case (Cons exch rest)
    then have mem: "exch \<in> set (act_exchanges a)" and rest: "set rest \<subseteq> set (act_exchanges a)"
      by simp_all
    note inner = Cons.IH[OF rest]
    show ?case
    proof (cases "ex_formula exch")
      case FunctionType
      then show ?thesis using inner by (simp add: rec_func_loop_skip)
    next
      case (Value fm)
      note fm = this
      show ?thesis
      proof (cases "ex_input exch = ex_output exch")
        case True
        then show ?thesis using inner fm by (simp add: rec_func_loop_self)
      next
        case io: False
        show ?thesis
        proof (cases "fst (ex_input exch) \<in> set (background_dbs cfg)")
          case True
          show ?thesis
          proof (cases "symbol_of_input db d (ex_input exch)")
            case (Inl e)
            then show ?thesis by (simp add: rec_func_loop_bg[OF fm io True])
          next
            case (Inr p)
            obtain s d1 where "p = (s, d1)" by (cases p)
            with Inr show ?thesis using inner by (simp add: rec_func_loop_bg[OF fm io True])
          qed
        next
          case bg: False
          show ?thesis
          proof (cases "fst (ex_input exch) = act_database a \<and> snd (ex_input exch) = act_code a")
            case True
            then show ?thesis by (simp add: rec_func_loop_recursive[OF fm io bg])
          next
            case self: False
            note unf = rec_func_loop_fg[OF fm io bg self]
            show ?thesis
            proof (cases "db (ex_input exch)")
              case None
              then show ?thesis by (simp add: unf)
            next
              case (Some sub)
              have sa: "sub_activity cfg db a sub"
                unfolding sub_activity_def using mem fm io bg self Some by (intro bexI[of _ exch]) simp_all
              with ok have lt: "(sub, a) \<in> references cfg db model" by (simp add: references_def)
              from ok sa have "sub \<in> visited cfg db model" by (rule visited.Sub)
              from outer[OF lt this subset_refl, of "PyNum 0" 1 d]
              obtain y where y: "rec_func_loop cfg db sub (act_exchanges sub) (PyNum 0) 1 d = Some y"
                by blast
              show ?thesis
              proof (cases y)
                case (Inl e)
                with y Some show ?thesis by (simp add: unf)
              next
                case (Inr p)
                obtain ae d1 where "p = (ae, d1)" by (cases p)
                with Inr y Some show ?thesis using inner by (simp add: unf)
              qed
            qed
          qed
        qed
      qed
    qed
  qed
qed

text \<open>
  A model that reaches the same sub-activity along two paths, in a database that also
  holds the two activities \<open>A\<close> and \<open>B\<close> that reference each other and that the model
  does not reach.
\<close>

definition act_shared :: activity where
  "act_shared = mk_act (''fg'', ''shared'') ''shared''
     [mk_exch (''fg'', ''shared'') (''fg'', ''shared'') 1 (Value (PyNum 1)),
      mk_exch (''ecoinvent'', ''bg1'') (''fg'', ''shared'') 1 (Value (PyNum 1))]"

definition act_left :: activity where
  "act_left = mk_act (''fg'', ''left'') ''left''
     [mk_exch (''fg'', ''left'') (''fg'', ''left'') 1 (Value (PyNum 1)),
      mk_exch (''fg'', ''shared'') (''fg'', ''left'') 2 (Value (PyNum 2))]"

definition act_right :: activity where
  "act_right = mk_act (''fg'', ''right'') ''right''
     [mk_exch (''fg'', ''right'') (''fg'', ''right'') 1 (Value (PyNum 1)),
      mk_exch (''fg'', ''shared'') (''fg'', ''right'') 3 (Value (PyNum 3))]"

definition act_top :: activity where
  "act_top = mk_act (''fg'', ''top'') ''top''
     [mk_exch (''fg'', ''top'') (''fg'', ''top'') 1 (Value (PyNum 1)),
      mk_exch (''fg'', ''left'') (''fg'', ''top'') 1 (Value (PyNum 1)),
      mk_exch (''fg'', ''right'') (''fg'', ''top'') 1 (Value (PyNum 1))]"

definition db_dag :: database where
  "db_dag = [(''fg'', ''top'') \<mapsto> act_top, (''fg'', ''left'') \<mapsto> act_left,
             (''fg'', ''right'') \<mapsto> act_right, (''fg'', ''shared'') \<mapsto> act_shared,
             (''fg'', ''A'') \<mapsto> act_A, (''fg'', ''B'') \<mapsto> act_B,
             (''ecoinvent'', ''bg1'') \<mapsto> mk_act (''ecoinvent'', ''bg1'') ''elec mix'' []]"

text \<open>The number of references from the model to an activity that it reaches.\<close>

definition depth_dag :: "activity \<Rightarrow> nat" where
  "depth_dag a = (if act_code a = ''top'' then 0
                  else if act_code a = ''left'' \<or> act_code a = ''right'' then 1 else 2)"

lemma sub_activity_dag:
  "sub_activity cfg_ex db_dag act_top b \<Longrightarrow> b = act_left \<or> b = act_right"
  "sub_activity cfg_ex db_dag act_left b \<Longrightarrow> b = act_shared"
  "sub_activity cfg_ex db_dag act_right b \<Longrightarrow> b = act_shared"
  "\<not> sub_activity cfg_ex db_dag act_shared b"
  by (auto simp: sub_activity_def act_top_def act_left_def act_right_def act_shared_def
      mk_act_def mk_exch_def db_dag_def background_dbs_def cfg_ex_def)

lemma visited_db_dag:
  "a \<in> visited cfg_ex db_dag act_top \<Longrightarrow>
     a = act_top \<or> a = act_left \<or> a = act_right \<or> a = act_shared"
  by (induction rule: visited.induct) (use sub_activity_dag in blast)+

lemma depth_dag_values:
  "depth_dag act_top = 0" "depth_dag act_left = 1" "depth_dag act_right = 1" "depth_dag act_shared = 2"
  by (simp_all add: depth_dag_def act_top_def act_left_def act_right_def act_shared_def mk_act_def)

lemma finite_visited_db_dag: "finite (visited cfg_ex db_dag act_top)"
proof -
  have "visited cfg_ex db_dag act_top \<subseteq> {act_top, act_left, act_right, act_shared}"
    using visited_db_dag by blast
  then show ?thesis by (rule finite_subset) simp
qed

lemma acyclic_db_dag: "acyclic (references cfg_ex db_dag act_top)"
proof (rule acyclicI_order[where f = depth_dag])
  fix b a
  assume "(b, a) \<in> references cfg_ex db_dag act_top"
  then have v: "a \<in> visited cfg_ex db_dag act_top" and s: "sub_activity cfg_ex db_dag a b"
    by (simp_all add: references_def)
  from visited_db_dag[OF v] s show "depth_dag a < depth_dag b"
    using sub_activity_dag[of b] by (auto simp: depth_dag_values)
qed

text \<open>The two activities that reference each other are in the database of the model.\<close>

lemma cycle_in_db_dag:
  "db_dag (''fg'', ''A'') = Some act_A" "db_dag (''fg'', ''B'') = Some act_B"
  "sub_activity cfg_ex db_dag act_A act_B" "sub_activity cfg_ex db_dag act_B act_A"
  by (simp_all add: sub_activity_def act_A_def act_B_def exch_A_B_def exch_B_A_def
      mk_act_def mk_exch_def db_dag_def background_dbs_def cfg_ex_def)

text \<open>
  Claim C1, amended. For every model from which finitely many activities are reached and
  whose references to foreground sub-activities, followed from the model, contain no
  cycle, \<^verbatim>\<open>actToExpression\<close> returns (an expression or an error), also when the same
  sub-activity is reached along several paths.
\<close>

theorem acyclic_model_terminates:
  assumes "finite (visited cfg db model)" and "acyclic (references cfg db model)"
  shows "\<exists>y. actToExpression cfg db model = Some y"
proof -
  from assms have "wf (references cfg db model)" by (rule wf_references)
  from rec_func_loop_returns[OF this visited.Model subset_refl, of "PyNum 0" 1 "[]"]
  obtain y where "rec_func cfg db model [] = Some y" by (auto simp: rec_func_def)
  then show ?thesis
    by (cases y) (auto simp: actToExpression_def)
qed

theorem acyclic_model_terminates_witness:
  "finite (visited cfg_ex db_dag act_top) \<and> acyclic (references cfg_ex db_dag act_top)
   \<and> (\<exists>y. actToExpression cfg_ex db_dag act_top = Some y)"
  using acyclic_model_terminates[OF finite_visited_db_dag acyclic_db_dag]
    finite_visited_db_dag acyclic_db_dag by (intro conjI)

section \<open>Batch evaluation\<close>

text \<open>
  A numpy array: a number (an array of no dimension, or a plain Python number), or the
  sequence of its sub-arrays along the first axis.
\<close>

datatype ndarray = Scalar real | Array "ndarray list"

fun ndim :: "ndarray \<Rightarrow> nat" where
  "ndim (Scalar a) = 0"
| "ndim (Array []) = 1"
| "ndim (Array (x # xs)) = Suc (ndim x)"

fun collect :: "(error + 'a) list \<Rightarrow> error + 'a list" where
  "collect [] = Inr []"
| "collect (Inl e # rs) = Inl e"
| "collect (Inr x # rs) = (case collect rs of Inl e \<Rightarrow> Inl e | Inr xs \<Rightarrow> Inr (x # xs))"

definition array_of :: "(error + ndarray) list \<Rightarrow> error + ndarray" where
  "array_of rs = (case collect rs of Inl e \<Rightarrow> Inl e | Inr xs \<Rightarrow> Inr (Array xs))"

function broadcast :: "(real \<Rightarrow> real \<Rightarrow> real) \<Rightarrow> ndarray \<Rightarrow> ndarray \<Rightarrow> error + ndarray" where
  "broadcast f (Scalar a) (Scalar b) = Inr (Scalar (f a b))"
| "broadcast f (Scalar a) (Array ys) = array_of (map (\<lambda>y. broadcast f (Scalar a) y) ys)"
| "broadcast f (Array xs) (Scalar b) = array_of (map (\<lambda>x. broadcast f x (Scalar b)) xs)"
| "broadcast f (Array xs) (Array ys) =
     (if ndim (Array xs) < ndim (Array ys) then array_of (map (\<lambda>y. broadcast f (Array xs) y) ys)
      else if ndim (Array ys) < ndim (Array xs) then array_of (map (\<lambda>x. broadcast f x (Array ys)) xs)
      else if length xs = length ys then array_of (map (\<lambda>(x, y). broadcast f x y) (zip xs ys))
      else if length xs = 1 then array_of (map (\<lambda>y. broadcast f (hd xs) y) ys)
      else if length ys = 1 then array_of (map (\<lambda>x. broadcast f x (hd ys)) xs)
      else Inl ValueError)"
  by pat_completeness auto

lemma size_in_list: "x \<in> set xs \<Longrightarrow> size x < Suc (size_list size xs)"
  by (induction xs) auto

termination broadcast
proof (relation "measure (\<lambda>(f, x, y). size x + size y)", goal_cases)
  case 1
  show ?case by simp
next
  case (2 f a ys y)
  then show ?case using size_in_list[of y ys] by simp
next
  case (3 f xs b x)
  then show ?case using size_in_list[of x xs] by simp
next
  case (4 f xs ys y)
  then show ?case using size_in_list[of y ys] by simp
next
  case (5 f xs ys x)
  then show ?case using size_in_list[of x xs] by simp
next
  case (6 f xs ys p x y)
  then have "x \<in> set xs" "y \<in> set ys" by (auto dest: set_zip_leftD set_zip_rightD)
  then show ?case using size_in_list[of x xs] size_in_list[of y ys] by simp
next
  case (7 f xs ys y)
  then have "hd xs \<in> set xs" by (cases xs) auto
  then show ?case using size_in_list[of "hd xs" xs] size_in_list[of y ys] 7 by simp
next
  case (8 f xs ys x)
  then have "hd ys \<in> set ys" by (cases ys) auto
  then show ?case using size_in_list[of "hd ys" ys] size_in_list[of x xs] 8 by simp
qed


text \<open>The product \<^verbatim>\<open>alpha * r\<close> of a number and an array.\<close>

fun np_scale :: "real \<Rightarrow> ndarray \<Rightarrow> ndarray" where
  "np_scale alpha (Scalar a) = Scalar (alpha * a)"
| "np_scale alpha (Array xs) = Array (map (np_scale alpha) xs)"

text \<open>
  The function that \<^verbatim>\<open>lambdify(names, e, 'numpy')\<close> compiles: called with keyword
  arguments, it wants exactly its argument names, and computes \<open>e\<close> with the operations of
  numpy. Where a divisor is zero numpy gives an infinity or a NaN and goes on; with the
  reals the quotient is the one of HOL.
\<close>

fun np_eval :: "(string \<rightharpoonup> ndarray) \<Rightarrow> expr \<Rightarrow> error + ndarray" where
  "np_eval env (Num r) = Inr (Scalar r)"
| "np_eval env (Symbol s) = (case env s of None \<Rightarrow> Inl (NameError s) | Some a \<Rightarrow> Inr a)"
| "np_eval env (Add a b) =
     (case np_eval env a of Inl e \<Rightarrow> Inl e | Inr x \<Rightarrow>
        (case np_eval env b of Inl e \<Rightarrow> Inl e | Inr y \<Rightarrow> broadcast (+) x y))"
| "np_eval env (Mul a b) =
     (case np_eval env a of Inl e \<Rightarrow> Inl e | Inr x \<Rightarrow>
        (case np_eval env b of Inl e \<Rightarrow> Inl e | Inr y \<Rightarrow> broadcast (*) x y))"
| "np_eval env (Div a b) =
     (case np_eval env a of Inl e \<Rightarrow> Inl e | Inr x \<Rightarrow>
        (case np_eval env b of Inl e \<Rightarrow> Inl e | Inr y \<Rightarrow> broadcast (/) x y))"

type_synonym compiled = "(string \<times> ndarray) list \<Rightarrow> error + ndarray"

definition lambdify :: "string list \<Rightarrow> expr \<Rightarrow> compiled" where
  "lambdify names e kwargs =
     (if set (map fst kwargs) = set names then np_eval (map_of kwargs) e else Inl TypeError)"

text \<open>
  The values that a parameter is given: a number, a list of numbers, or a sequence of
  numbers of another type (a tuple, or an array of numpy).
\<close>

datatype pyvalue = PyFloat real | PyList "real list" | PyTuple "real list" | NdArray ndarray

type_synonym impact_method = "string \<times> string \<times> string"

fun method_name :: "impact_method \<Rightarrow> string" where
  "method_name (m0, m1, m2) = m1 @ '' - '' @ m2"

text \<open>
  A table of pandas: the labels of its rows (positions, or names after a renaming), the
  labels of its columns, and its rows.
\<close>

datatype label = Position nat | Name string

record dataframe =
  df_index :: "label list"
  df_columns :: "string list"
  df_values :: "real list list"

text \<open>The first loop of \<^verbatim>\<open>postMultiLCAAlgebric\<close>, over the items of the completed \<open>params\<close>.\<close>

fun param_length_loop :: "(string \<times> pyvalue) list \<Rightarrow> nat \<Rightarrow> error + nat" where
  "param_length_loop [] param_length = Inr param_length"
| "param_length_loop ((key, val) # rest) param_length =
     (case val of
        PyList xs \<Rightarrow>
          if param_length = 1 then param_length_loop rest (length xs)
          else if param_length \<noteq> length xs then Inl ShapeMismatch
          else param_length_loop rest param_length
      | _ \<Rightarrow> param_length_loop rest param_length)"

text \<open>
  The second loop: a list becomes the array of its elements, any other value \<open>val\<close> the
  array of \<^verbatim>\<open>[val] * param_length\<close>.
\<close>

fun np_array :: "nat \<Rightarrow> pyvalue \<Rightarrow> ndarray" where
  "np_array param_length (PyList xs) = Array (map Scalar xs)"
| "np_array param_length (PyFloat r) = Array (replicate param_length (Scalar r))"
| "np_array param_length (PyTuple xs) = Array (replicate param_length (Array (map Scalar xs)))"
| "np_array param_length (NdArray a) = Array (replicate param_length a)"

text \<open>
  The assignment \<^verbatim>\<open>res[imethod, :] = v\<close> to a row of \<open>n\<close> entries: \<open>v\<close> is stretched to the
  row, or the assignment raises.
\<close>

fun the_scalar :: "ndarray \<Rightarrow> real" where
  "the_scalar (Scalar a) = a"
| "the_scalar (Array xs) = 0"

fun assign_row :: "nat \<Rightarrow> ndarray \<Rightarrow> error + real list" where
  "assign_row n (Scalar a) = Inr (replicate n a)"
| "assign_row n (Array xs) =
     (if ndim (Array xs) = 1 then
        (if length xs = n then Inr (map the_scalar xs)
         else if length xs = 1 then Inr (replicate n (the_scalar (hd xs)))
         else Inl ValueError)
      else (case xs of [x] \<Rightarrow> assign_row n x | _ \<Rightarrow> Inl ValueError))"

text \<open>The third loop, over \<^verbatim>\<open>enumerate(lambdas)\<close>.\<close>

fun fill_rows :: "real \<Rightarrow> (string \<times> ndarray) list \<Rightarrow> nat \<Rightarrow> compiled list \<Rightarrow> nat
     \<Rightarrow> real list list \<Rightarrow> error + real list list" where
  "fill_rows alpha params n [] imethod res = Inr res"
| "fill_rows alpha params n (lambd # rest) imethod res =
     (case lambd params of
        Inl e \<Rightarrow> Inl e
      | Inr r \<Rightarrow>
         (case assign_row n (np_scale alpha r) of
            Inl e \<Rightarrow> Inl e
          | Inr row \<Rightarrow>
              if imethod < length res then fill_rows alpha params n rest (imethod + 1) (res[imethod := row])
              else Inl IndexError))"

text \<open>\<^verbatim>\<open>pd.DataFrame(res, index=...).transpose()\<close>, for \<open>res\<close> with rows of \<open>n\<close> entries.\<close>

definition transposed_frame :: "string list \<Rightarrow> nat \<Rightarrow> real list list \<Rightarrow> dataframe" where
  "transposed_frame names n res =
     \<lparr>df_index = map Position [0..<n], df_columns = names,
      df_values = map (\<lambda>i. map (\<lambda>row. row ! i) res) [0..<n]\<rparr>"

text \<open>
  \<^verbatim>\<open>postMultiLCAAlgebric\<close>. \<^verbatim>\<open>_completeParamValues\<close> is not in this file of the
  repository: it is the parameter \<open>completeParamValues\<close>.
\<close>

definition postMultiLCAAlgebric ::
  "((string \<times> pyvalue) list \<Rightarrow> error + (string \<times> pyvalue) list) \<Rightarrow> impact_method list \<Rightarrow> compiled list
     \<Rightarrow> real \<Rightarrow> (string \<times> pyvalue) list \<Rightarrow> error + dataframe" where
  "postMultiLCAAlgebric completeParamValues methods lambdas alpha params =
     (case completeParamValues params of
        Inl e \<Rightarrow> Inl e
      | Inr params \<Rightarrow>
         (case param_length_loop params 1 of
            Inl e \<Rightarrow> Inl e
          | Inr param_length \<Rightarrow>
             (case fill_rows alpha (map (\<lambda>(key, val). (key, np_array param_length val)) params)
                     param_length lambdas 0
                     (replicate (length methods) (replicate param_length 0)) of
                Inl e \<Rightarrow> Inl e
              | Inr res \<Rightarrow> Inr (transposed_frame (map method_name methods) param_length res))))"


section \<open>The check of the lengths of the sample vectors\<close>

text \<open>One impact method, and a function compiled from the sum of two parameters.\<close>

definition ex_methods :: "impact_method list" where
  "ex_methods = [(''IPCC'', ''GWP'', ''100a'')]"

definition ex_lambdas :: "compiled list" where
  "ex_lambdas = [lambdify [''a'', ''b''] (Add (Symbol ''a'') (Symbol ''b''))]"

text \<open>
  Claim C4 fails on the call with \<^verbatim>\<open>a=[7], b=[1, 2, 3]\<close>: the two lists differ in
  length, and no error is raised. \<open>param_length\<close> is still 1 after the first list, which
  the loop takes for "no list seen yet", so the length of the second list replaces it
  unchecked; the compiled function is evaluated and a table of three rows is returned.
  (With the two parameters in the other order the error is raised.)
\<close>

theorem vectors_of_lengths_1_and_3_are_evaluated:
  "param_length_loop [(''a'', PyList [7]), (''b'', PyList [1, 2, 3])] 1 = Inr 3
   \<and> postMultiLCAAlgebric Inr ex_methods ex_lambdas 1 [(''a'', PyList [7]), (''b'', PyList [1, 2, 3])] =
       Inr \<lparr>df_index = [Position 0, Position 1, Position 2], df_columns = [''GWP - 100a''],
            df_values = [[8], [9], [10]]\<rparr>
   \<and> postMultiLCAAlgebric Inr ex_methods ex_lambdas 1 [(''b'', PyList [1, 2, 3]), (''a'', PyList [7])] =
       Inl ShapeMismatch"
  by code_simp

text \<open>\<^verbatim>\<open>isinstance(val, list)\<close>\<close>

fun isinstance_list :: "pyvalue \<Rightarrow> bool" where
  "isinstance_list (PyList xs) = True"
| "isinstance_list val = False"

text \<open>
  Claim C10. The result of the loop that checks the lengths, an error or the number of
  samples, is the one it has on the items whose value is a Python list; on the other
  items alone, whatever sequences they hold, it raises nothing and leaves the number of
  samples as it is.
\<close>

theorem only_lists_are_sample_vectors:
  "param_length_loop params n = param_length_loop (filter (\<lambda>(key, val). isinstance_list val) params) n
   \<and> param_length_loop (filter (\<lambda>(key, val). \<not> isinstance_list val) params) n = Inr n"
proof
  show "param_length_loop params n =
      param_length_loop (filter (\<lambda>(key, val). isinstance_list val) params) n"
  proof (induction params arbitrary: n)
    case Nil
    show ?case by simp
  next
    case (Cons item params)
    obtain key val where item: "item = (key, val)" by (cases item)
    show ?case unfolding item using Cons.IH by (cases val) simp_all
  qed
  show "param_length_loop (filter (\<lambda>(key, val). \<not> isinstance_list val) params) n = Inr n"
  proof (induction params)
    case Nil
    show ?case by simp
  next
    case (Cons item params)
    obtain key val where item: "item = (key, val)" by (cases item)
    show ?case unfolding item using Cons.IH by (cases val) simp_all
  qed
qed

text \<open>
  Two tuples of three and of two numbers: the check passes with one sample, each tuple is
  repeated once like a number would be, and it is numpy that refuses to add the arrays.
\<close>

lemma tuples_of_differing_lengths:
  "param_length_loop [(''a'', PyTuple [1, 2, 3]), (''b'', PyTuple [1, 2])] 1 = Inr 1
   \<and> np_array 1 (PyTuple [1, 2]) = Array [Array [Scalar 1, Scalar 2]]
   \<and> postMultiLCAAlgebric Inr ex_methods ex_lambdas 1
        [(''a'', PyTuple [1, 2, 3]), (''b'', PyTuple [1, 2])] = Inl ValueError"
  by code_simp

section \<open>Evaluation of a batch and evaluation of each sample\<close>

text \<open>The symbols of an expression.\<close>

fun free_symbols :: "expr \<Rightarrow> string set" where
  "free_symbols (Num r) = {}"
| "free_symbols (Symbol s) = {s}"
| "free_symbols (Add a b) = free_symbols a \<union> free_symbols b"
| "free_symbols (Mul a b) = free_symbols a \<union> free_symbols b"
| "free_symbols (Div a b) = free_symbols a \<union> free_symbols b"

text \<open>The value of an expression for one number for each symbol.\<close>

fun point_eval :: "(string \<Rightarrow> real) \<Rightarrow> expr \<Rightarrow> real" where
  "point_eval v (Num r) = r"
| "point_eval v (Symbol s) = v s"
| "point_eval v (Add a b) = point_eval v a + point_eval v b"
| "point_eval v (Mul a b) = point_eval v a * point_eval v b"
| "point_eval v (Div a b) = point_eval v a / point_eval v b"

text \<open>
  The parameters of the \<open>i\<close>-th sample: of each list its \<open>i\<close>-th element, as a number.
\<close>

fun sample_value :: "nat \<Rightarrow> pyvalue \<Rightarrow> pyvalue" where
  "sample_value i (PyList xs) = PyFloat (xs ! i)"
| "sample_value i val = val"

definition sample :: "nat \<Rightarrow> (string \<times> pyvalue) list \<Rightarrow> (string \<times> pyvalue) list" where
  "sample i params = map (\<lambda>(key, val). (key, sample_value i val)) params"

text \<open>A number, or a list of \<open>n\<close> numbers.\<close>

fun number_or_vector :: "nat \<Rightarrow> pyvalue \<Rightarrow> bool" where
  "number_or_vector n (PyFloat r) = True"
| "number_or_vector n (PyList xs) = (length xs = n)"
| "number_or_vector n val = False"

text \<open>The number that a parameter has in the \<open>i\<close>-th sample.\<close>

fun number_at :: "nat \<Rightarrow> pyvalue \<Rightarrow> real" where
  "number_at i (PyFloat r) = r"
| "number_at i (PyList xs) = xs ! i"
| "number_at i val = 0"

definition numbers_at :: "nat \<Rightarrow> (string \<times> pyvalue) list \<Rightarrow> string \<Rightarrow> real" where
  "numbers_at i params s = (case map_of params s of None \<Rightarrow> 0 | Some val \<Rightarrow> number_at i val)"

lemma collect_Inr: "collect (map (\<lambda>x. Inr (g x)) xs) = Inr (map g xs)"
  by (induction xs) simp_all

lemma array_of_Inr: "array_of (map (\<lambda>x. Inr (g x)) xs) = Inr (Array (map g xs))"
  by (simp add: array_of_def collect_Inr)

lemma ndim_vector: "ndim (Array (map Scalar xs)) = 1"
  by (cases xs) simp_all

text \<open>
  \<open>stands_for n r g\<close>: the array \<open>r\<close> is the number \<open>g i\<close> for every \<open>i\<close>, or the vector of
  the \<open>n\<close> numbers \<open>g i\<close>.
\<close>

definition stands_for :: "nat \<Rightarrow> ndarray \<Rightarrow> (nat \<Rightarrow> real) \<Rightarrow> bool" where
  "stands_for n r g \<longleftrightarrow>
     (\<exists>c. r = Scalar c \<and> (\<forall>i<n. g i = c)) \<or> r = Array (map Scalar (map g [0..<n]))"

lemma broadcast_scalar_vector:
  "broadcast f (Scalar a) (Array (map Scalar xs)) = Inr (Array (map Scalar (map (f a) xs)))"
  by (simp add: array_of_Inr comp_def)

lemma broadcast_vector_scalar:
  "broadcast f (Array (map Scalar xs)) (Scalar b) = Inr (Array (map Scalar (map (\<lambda>x. f x b) xs)))"
  by (simp add: array_of_Inr comp_def)

lemma broadcast_vectors:
  assumes "length xs = length ys"
  shows "broadcast f (Array (map Scalar xs)) (Array (map Scalar ys)) =
     Inr (Array (map Scalar (map (\<lambda>(x, y). f x y) (zip xs ys))))"
proof -
  have "map (\<lambda>(x, y). broadcast f x y) (zip (map Scalar xs) (map Scalar ys)) =
      map (\<lambda>p. Inr (Scalar (case p of (x, y) \<Rightarrow> f x y))) (zip xs ys)"
    by (simp add: zip_map_map split_def)
  then show ?thesis
    using assms by (simp add: ndim_vector array_of_Inr comp_def del: ndim.simps)
qed

lemma broadcast_stands_for:
  assumes "stands_for n x g" and "stands_for n y h"
  shows "\<exists>r. broadcast f x y = Inr r \<and> stands_for n r (\<lambda>i. f (g i) (h i))"
proof -
  have zip: "map (\<lambda>(x, y). f x y) (zip (map g [0..<n]) (map h [0..<n])) = map (\<lambda>i. f (g i) (h i)) [0..<n]"
    by (simp add: zip_map_map zip_same_conv_map)
  from assms consider
      (ss) c d where "x = Scalar c" "\<forall>i<n. g i = c" "y = Scalar d" "\<forall>i<n. h i = d"
    | (sv) c where "x = Scalar c" "\<forall>i<n. g i = c" "y = Array (map Scalar (map h [0..<n]))"
    | (vs) d where "x = Array (map Scalar (map g [0..<n]))" "y = Scalar d" "\<forall>i<n. h i = d"
    | (vv) "x = Array (map Scalar (map g [0..<n]))" "y = Array (map Scalar (map h [0..<n]))"
    unfolding stands_for_def by blast
  then show ?thesis
  proof cases
    case ss
    then show ?thesis by (simp add: stands_for_def)
  next
    case sv
    then have "broadcast f x y = Inr (Array (map Scalar (map (\<lambda>i. f (g i) (h i)) [0..<n])))"
      by (simp only: broadcast_scalar_vector) simp
    then show ?thesis by (simp add: stands_for_def)
  next
    case vs
    then have "broadcast f x y = Inr (Array (map Scalar (map (\<lambda>i. f (g i) (h i)) [0..<n])))"
      by (simp only: broadcast_vector_scalar) simp
    then show ?thesis by (simp add: stands_for_def)
  next
    case vv
    then have "broadcast f x y = Inr (Array (map Scalar (map (\<lambda>i. f (g i) (h i)) [0..<n])))"
      using broadcast_vectors[of "map g [0..<n]" "map h [0..<n]" f] zip by simp
    then show ?thesis by (simp add: stands_for_def)
  qed
qed

lemma np_eval_stands_for:
  assumes "\<And>s. s \<in> free_symbols e \<Longrightarrow> env s = Some (Array (map Scalar (map (\<lambda>i. v i s) [0..<n])))"
  shows "\<exists>r. np_eval env e = Inr r \<and> stands_for n r (\<lambda>i. point_eval (v i) e)"
  using assms
proof (induction e)
  case (Num r)
  show ?case by (simp add: stands_for_def)
next
  case (Symbol s)
  then show ?case by (simp add: stands_for_def)
next
  case (Add a b)
  then obtain x y where x: "np_eval env a = Inr x" "stands_for n x (\<lambda>i. point_eval (v i) a)"
    and y: "np_eval env b = Inr y" "stands_for n y (\<lambda>i. point_eval (v i) b)"
    by (metis UnCI free_symbols.simps(3))
  from broadcast_stands_for[OF x(2) y(2), of "(+)"] x(1) y(1) show ?case by simp
next
  case (Mul a b)
  then obtain x y where x: "np_eval env a = Inr x" "stands_for n x (\<lambda>i. point_eval (v i) a)"
    and y: "np_eval env b = Inr y" "stands_for n y (\<lambda>i. point_eval (v i) b)"
    by (metis UnCI free_symbols.simps(4))
  from broadcast_stands_for[OF x(2) y(2), of "(*)"] x(1) y(1) show ?case by simp
next
  case (Div a b)
  then obtain x y where x: "np_eval env a = Inr x" "stands_for n x (\<lambda>i. point_eval (v i) a)"
    and y: "np_eval env b = Inr y" "stands_for n y (\<lambda>i. point_eval (v i) b)"
    by (metis UnCI free_symbols.simps(5))
  from broadcast_stands_for[OF x(2) y(2), of "(/)"] x(1) y(1) show ?case by simp
qed

lemma assign_row_vector:
  "length xs = n \<Longrightarrow> assign_row n (Array (map Scalar xs)) = Inr xs"
  by (simp add: ndim_vector comp_def del: ndim.simps)

lemma assign_row_stands_for:
  assumes "stands_for n r g"
  shows "assign_row n (np_scale alpha r) = Inr (map (\<lambda>i. alpha * g i) [0..<n])"
proof -
  from assms consider (s) c where "r = Scalar c" "\<forall>i<n. g i = c"
    | (v) "r = Array (map Scalar (map g [0..<n]))"
    unfolding stands_for_def by blast
  then show ?thesis
  proof cases
    case s
    then show ?thesis by (auto simp: list_eq_iff_nth_eq)
  next
    case v
    have "np_scale alpha r = Array (map Scalar (map (\<lambda>i. alpha * g i) [0..<n]))"
      unfolding v by (simp add: comp_def)
    then show ?thesis
      by (simp only: assign_row_vector length_map length_upt)
  qed
qed


lemma param_length_loop_vectors:
  assumes "list_all (\<lambda>(key, val). number_or_vector n val) params" and "k = 1 \<or> k = n"
  shows "param_length_loop params k =
     Inr (if list_ex (\<lambda>(key, val). isinstance_list val) params then n else k)"
  using assms
proof (induction params arbitrary: k)
  case Nil
  show ?case by simp
next
  case (Cons item params)
  obtain key val where item: "item = (key, val)" by (cases item)
  from Cons.prems(1) have rest: "list_all (\<lambda>(key, val). number_or_vector n val) params"
    and val: "number_or_vector n val" by (simp_all add: item)
  show ?case
  proof (cases val)
    case (PyFloat r)
    with Cons.IH[OF rest Cons.prems(2)] show ?thesis by (simp add: item)
  next
    case (PyList xs)
    with val have len: "length xs = n" by simp
    from Cons.IH[OF rest, of n] have "param_length_loop params n = Inr n" by simp
    with Cons.prems(2) len show ?thesis by (auto simp: item PyList)
  next
    case (PyTuple xs)
    with val show ?thesis by simp
  next
    case (NdArray a)
    with val show ?thesis by simp
  qed
qed

lemma np_array_vector:
  assumes "number_or_vector n val"
  shows "np_array n val = Array (map Scalar (map (\<lambda>i. number_at i val) [0..<n]))"
proof (cases val)
  case (PyFloat r)
  then show ?thesis by (simp add: map_replicate_const)
next
  case (PyList xs)
  with assms have "map (\<lambda>i. xs ! i) [0..<n] = xs" using map_nth[of xs] by simp
  with PyList show ?thesis by simp
next
  case (PyTuple xs)
  with assms show ?thesis by simp
next
  case (NdArray a)
  with assms show ?thesis by simp
qed

lemma map_of_np_array:
  "map_of (map (\<lambda>(key, val). (key, np_array n val)) params) s = map_option (np_array n) (map_of params s)"
  by (induction params) auto

lemma lambdify_stands_for:
  assumes vectors: "list_all (\<lambda>(key, val). number_or_vector n val) params"
    and args: "set names = fst ` set params"
    and syms: "free_symbols e \<subseteq> set names"
  shows "\<exists>r. lambdify names e (map (\<lambda>(key, val). (key, np_array n val)) params) = Inr r
     \<and> stands_for n r (\<lambda>i. point_eval (numbers_at i params) e)"
proof -
  let ?arrays = "map (\<lambda>(key, val). (key, np_array n val)) params"
  have keys: "set (map fst ?arrays) = set names"
    using args by (auto simp: image_iff split_def)
  have "map_of ?arrays s = Some (Array (map Scalar (map (\<lambda>i. numbers_at i params s) [0..<n])))"
    if "s \<in> free_symbols e" for s
  proof -
    from that syms args have "s \<in> fst ` set params" by auto
    then obtain val where val: "map_of params s = Some val"
      by (metis domD dom_map_of_conv_image_fst)
    then have "(s, val) \<in> set params" by (rule map_of_SomeD)
    with vectors have "number_or_vector n val" by (auto simp: list_all_iff)
    from np_array_vector[OF this] val show ?thesis
      by (simp add: map_of_np_array numbers_at_def)
  qed
  from np_eval_stands_for[of e "map_of ?arrays" "\<lambda>i. numbers_at i params" n, OF this]
  show ?thesis using keys by (simp add: lambdify_def)
qed

text \<open>The row that the loop over the compiled functions stores for the expression \<open>e\<close>.\<close>

definition row_of :: "real \<Rightarrow> nat \<Rightarrow> (string \<times> pyvalue) list \<Rightarrow> expr \<Rightarrow> real list" where
  "row_of alpha n params e = map (\<lambda>i. alpha * point_eval (numbers_at i params) e) [0..<n]"

lemma fill_rows_closed_form:
  assumes "\<And>e. e \<in> set es \<Longrightarrow> \<exists>r. lambdify names e arrays = Inr r
        \<and> stands_for n r (\<lambda>i. point_eval (numbers_at i params) e)"
    and "k + length es \<le> length res"
  shows "fill_rows alpha arrays n (map (lambdify names) es) k res =
     Inr (take k res @ map (row_of alpha n params) es @ drop (k + length es) res)"
  using assms
proof (induction es arbitrary: k res)
  case Nil
  show ?case by simp
next
  case (Cons e es)
  from Cons.prems(1)[of e] obtain r where r: "lambdify names e arrays = Inr r"
    and st: "stands_for n r (\<lambda>i. point_eval (numbers_at i params) e)" by auto
  have row: "assign_row n (np_scale alpha r) = Inr (row_of alpha n params e)"
    using assign_row_stands_for[OF st] by (simp add: row_of_def)
  from Cons.prems(2) have k: "k < length res" by simp
  have "fill_rows alpha arrays n (map (lambdify names) es) (k + 1) (res[k := row_of alpha n params e]) =
      Inr (take (k + 1) (res[k := row_of alpha n params e]) @ map (row_of alpha n params) es
           @ drop (k + 1 + length es) (res[k := row_of alpha n params e]))"
    using Cons.prems by (intro Cons.IH) simp_all
  moreover have "take (k + 1) (res[k := row_of alpha n params e]) = take k res @ [row_of alpha n params e]"
    using k by (simp add: take_Suc_conv_app_nth)
  moreover have "drop (k + 1 + length es) (res[k := row_of alpha n params e]) = drop (k + length (e # es)) res"
    by simp
  ultimately show ?case using r row k by simp
qed

text \<open>The table that \<^verbatim>\<open>postMultiLCAAlgebric\<close> returns for numbers and vectors of \<open>n\<close> numbers.\<close>

definition table_of :: "impact_method list \<Rightarrow> expr list \<Rightarrow> real \<Rightarrow> nat \<Rightarrow> (string \<times> pyvalue) list
     \<Rightarrow> dataframe" where
  "table_of methods es alpha n params =
     transposed_frame (map method_name methods) n
       (map (row_of alpha n params) es @ replicate (length methods - length es) (replicate n 0))"

lemma postMultiLCAAlgebric_closed_form:
  assumes vectors: "list_all (\<lambda>(key, val). number_or_vector n val) params"
    and some: "n = 1 \<or> list_ex (\<lambda>(key, val). isinstance_list val) params"
    and args: "set names = fst ` set params"
    and syms: "list_all (\<lambda>e. free_symbols e \<subseteq> set names) es"
    and len: "length es \<le> length methods"
    and complete: "completeParamValues params = Inr params"
  shows "postMultiLCAAlgebric completeParamValues methods (map (lambdify names) es) alpha params =
     Inr (table_of methods es alpha n params)"
proof -
  let ?arrays = "map (\<lambda>(key, val). (key, np_array n val)) params"
  have pl: "param_length_loop params 1 = Inr n"
    using param_length_loop_vectors[OF vectors, of 1] some by auto
  have "fill_rows alpha ?arrays n (map (lambdify names) es) 0
      (replicate (length methods) (replicate n 0)) =
      Inr (take 0 (replicate (length methods) (replicate n 0)) @ map (row_of alpha n params) es
           @ drop (0 + length es) (replicate (length methods) (replicate n 0)))"
  proof (rule fill_rows_closed_form)
    fix e assume "e \<in> set es"
    with syms have "free_symbols e \<subseteq> set names" by (simp add: list_all_iff)
    from lambdify_stands_for[OF vectors args this]
    show "\<exists>r. lambdify names e ?arrays = Inr r
        \<and> stands_for n r (\<lambda>i. point_eval (numbers_at i params) e)" .
  next
    show "0 + length es \<le> length (replicate (length methods) (replicate n (0::real)))"
      using len by simp
  qed
  then show ?thesis
    using complete pl by (simp add: postMultiLCAAlgebric_def table_of_def)
qed

lemma numbers_at_sample: "numbers_at 0 (sample i params) = numbers_at i params"
proof
  fix s
  have "map_of (sample i params) s = map_option (sample_value i) (map_of params s)"
    unfolding sample_def by (induction params) auto
  moreover have "number_at 0 (sample_value i val) = number_at i val" for val
    by (cases val) simp_all
  ultimately show "numbers_at 0 (sample i params) s = numbers_at i params s"
    by (simp add: numbers_at_def split: option.splits)
qed

lemma sample_numbers:
  assumes "list_all (\<lambda>(key, val). number_or_vector n val) params"
  shows "list_all (\<lambda>(key, val). number_or_vector 1 val) (sample i params)"
proof -
  have "number_or_vector 1 (sample_value i val)" if "number_or_vector n val" for val
    using that by (cases val) simp_all
  with assms show ?thesis by (auto simp: sample_def list_all_iff)
qed

lemma table_of_row:
  assumes "i < n"
  shows "df_values (table_of methods es alpha n params) ! i =
     map (\<lambda>e. alpha * point_eval (numbers_at i params) e) es @ replicate (length methods - length es) 0"
  using assms by (simp add: table_of_def transposed_frame_def row_of_def comp_def)

lemma table_of_sample:
  "table_of methods es alpha 1 (sample i params) =
     \<lparr>df_index = [Position 0], df_columns = map method_name methods,
      df_values = [map (\<lambda>e. alpha * point_eval (numbers_at i params) e) es
                   @ replicate (length methods - length es) 0]\<rparr>"
  by (simp add: table_of_def transposed_frame_def row_of_def comp_def numbers_at_sample)

text \<open>
  Claim C3. The parameters are given numbers or lists of \<open>n\<close> numbers (one list at least,
  unless \<open>n\<close> is 1); the compiled functions are those of \<^verbatim>\<open>lambdify\<close> for expressions over
  the names of the parameters, no more of them than methods; \<^verbatim>\<open>_completeParamValues\<close>
  returns these parameters and those of each sample as they are. Then the batch evaluation
  returns a table of \<open>n\<close> rows, and the evaluation of the \<open>i\<close>-th sample alone, each list
  replaced by its \<open>i\<close>-th element, returns the table of one row that is its \<open>i\<close>-th row.
\<close>

theorem batch_evaluation_is_evaluation_of_each_sample:
  assumes "list_all (\<lambda>(key, val). number_or_vector n val) params"
    and "n = 1 \<or> list_ex (\<lambda>(key, val). isinstance_list val) params"
    and "set names = fst ` set params"
    and "list_all (\<lambda>e. free_symbols e \<subseteq> set names) es"
    and "length es \<le> length methods"
    and "completeParamValues params = Inr params"
    and "list_all (\<lambda>i. completeParamValues (sample i params) = Inr (sample i params)) [0..<n]"
  shows "\<exists>t. postMultiLCAAlgebric completeParamValues methods (map (lambdify names) es) alpha params = Inr t
       \<and> df_index t = map Position [0..<n] \<and> length (df_values t) = n
       \<and> list_all (\<lambda>i. postMultiLCAAlgebric completeParamValues methods (map (lambdify names) es) alpha
                          (sample i params) =
                        Inr \<lparr>df_index = [Position 0], df_columns = df_columns t,
                             df_values = [df_values t ! i]\<rparr>) [0..<n]"
proof -
  let ?t = "table_of methods es alpha n params"
  have batch: "postMultiLCAAlgebric completeParamValues methods (map (lambdify names) es) alpha params = Inr ?t"
    using assms(1-6) by (rule postMultiLCAAlgebric_closed_form)
  have one: "postMultiLCAAlgebric completeParamValues methods (map (lambdify names) es) alpha (sample i params) =
      Inr \<lparr>df_index = [Position 0], df_columns = df_columns ?t, df_values = [df_values ?t ! i]\<rparr>"
    if i: "i < n" for i
  proof -
    have "map fst (sample i params) = map fst params"
      by (simp add: sample_def split_def comp_def)
    then have "fst ` set (sample i params) = fst ` set params"
      by (metis set_map)
    with assms(3) have keys: "set names = fst ` set (sample i params)" by simp
    have c: "completeParamValues (sample i params) = Inr (sample i params)"
      using assms(7) i by (simp add: list_all_iff)
    have run: "postMultiLCAAlgebric completeParamValues methods (map (lambdify names) es) alpha (sample i params) =
        Inr (table_of methods es alpha 1 (sample i params))"
      using sample_numbers[OF assms(1)] _ keys assms(4,5) c
      by (rule postMultiLCAAlgebric_closed_form) simp
    have row: "df_values ?t ! i =
        map (\<lambda>e. alpha * point_eval (numbers_at i params) e) es @ replicate (length methods - length es) 0"
      using i by (rule table_of_row)
    have cols: "df_columns ?t = map method_name methods"
      by (simp add: table_of_def transposed_frame_def)
    show ?thesis unfolding run table_of_sample row cols ..
  qed
  have "df_index ?t = map Position [0..<n]" "length (df_values ?t) = n"
    by (simp_all add: table_of_def transposed_frame_def)
  with batch one show ?thesis by (auto simp: list_all_iff)
qed


text \<open>Two parameters with five samples each, and the function compiled from \<open>a + 2 * b\<close>.\<close>

definition ex_samples :: "(string \<times> pyvalue) list" where
  "ex_samples = [(''a'', PyList [1, 2, 3, 4, 5]), (''b'', PyList [10, 20, 30, 40, 50])]"

definition ex_exprs :: "expr list" where
  "ex_exprs = [Add (Symbol ''a'') (Mul (Num 2) (Symbol ''b''))]"

definition ex_table :: dataframe where
  "ex_table = \<lparr>df_index = [Position 0, Position 1, Position 2, Position 3, Position 4],
               df_columns = [''GWP - 100a''], df_values = [[21], [42], [63], [84], [105]]\<rparr>"

lemma postMultiLCAAlgebric_ex_samples:
  "postMultiLCAAlgebric Inr ex_methods (map (lambdify [''a'', ''b'']) ex_exprs) 1 ex_samples = Inr ex_table"
  by code_simp

theorem batch_evaluation_is_evaluation_of_each_sample_witness:
  "list_all (\<lambda>(key, val). number_or_vector 5 val) ex_samples
   \<and> list_ex (\<lambda>(key, val). isinstance_list val) ex_samples
   \<and> postMultiLCAAlgebric Inr ex_methods (map (lambdify [''a'', ''b'']) ex_exprs) 1 ex_samples = Inr ex_table
   \<and> sample 2 ex_samples = [(''a'', PyFloat 3), (''b'', PyFloat 30)]
   \<and> postMultiLCAAlgebric Inr ex_methods (map (lambdify [''a'', ''b'']) ex_exprs) 1 (sample 2 ex_samples) =
       Inr \<lparr>df_index = [Position 0], df_columns = [''GWP - 100a''], df_values = [[63]]\<rparr>"
proof -
  have h1: "list_all (\<lambda>(key, val). number_or_vector 5 val) ex_samples"
    by (simp add: ex_samples_def)
  have h2: "list_ex (\<lambda>(key, val). isinstance_list val) ex_samples"
    by (simp add: ex_samples_def)
  have h3: "set [''a'', ''b''] = fst ` set ex_samples"
    by (simp add: ex_samples_def)
  have h4: "list_all (\<lambda>e. free_symbols e \<subseteq> set [''a'', ''b'']) ex_exprs"
    by (simp add: ex_exprs_def)
  have h5: "length ex_exprs \<le> length ex_methods"
    by (simp add: ex_exprs_def ex_methods_def)
  have h7: "list_all (\<lambda>i. Inr (sample i ex_samples) = (Inr (sample i ex_samples) :: error + (string \<times> pyvalue) list)) [0..<5]"
    by (simp add: list_all_iff)
  from batch_evaluation_is_evaluation_of_each_sample[where completeParamValues = Inr and alpha = 1,
      OF h1 disjI2[OF h2] h3 h4 h5 refl h7]
  obtain t where t: "postMultiLCAAlgebric Inr ex_methods (map (lambdify [''a'', ''b'']) ex_exprs) 1 ex_samples = Inr t"
    and each: "list_all (\<lambda>i. postMultiLCAAlgebric Inr ex_methods (map (lambdify [''a'', ''b'']) ex_exprs) 1
                          (sample i ex_samples) =
                        Inr \<lparr>df_index = [Position 0], df_columns = df_columns t,
                             df_values = [df_values t ! i]\<rparr>) [0..<5]"
    by blast
  from t have "t = ex_table" by (simp add: postMultiLCAAlgebric_ex_samples)
  moreover have "(2::nat) \<in> set [0..<5]" by simp
  ultimately have third: "postMultiLCAAlgebric Inr ex_methods (map (lambdify [''a'', ''b'']) ex_exprs) 1
      (sample 2 ex_samples) =
      Inr \<lparr>df_index = [Position 0], df_columns = df_columns ex_table, df_values = [df_values ex_table ! 2]\<rparr>"
    using each unfolding list_all_iff by blast
  have s2: "sample 2 ex_samples = [(''a'', PyFloat 3), (''b'', PyFloat 30)]"
    by (simp add: sample_def ex_samples_def)
  have "df_columns ex_table = [''GWP - 100a'']" "df_values ex_table ! 2 = [63]"
    by (simp_all add: ex_table_def)
  with third have "postMultiLCAAlgebric Inr ex_methods (map (lambdify [''a'', ''b'']) ex_exprs) 1 (sample 2 ex_samples) =
       Inr \<lparr>df_index = [Position 0], df_columns = [''GWP - 100a''], df_values = [[63]]\<rparr>"
    by simp
  with h1 h2 postMultiLCAAlgebric_ex_samples s2 show ?thesis by (intro conjI)
qed

section \<open>The registry of the parameters\<close>

text \<open>
  A parameter of the registry: its name, the names that \<^verbatim>\<open>names()\<close> returns for it (its own
  name, or one name for each value of an enum) and its default value. The registry that
  \<^verbatim>\<open>_param_registry()\<close> returns is a dict from the names to the parameters; it is not in
  this file of the repository and is a parameter here.
\<close>

record param_def =
  param_name :: string
  param_names :: "string list"
  param_default :: pyvalue

type_synonym registry = "(string \<times> param_def) list"

text \<open>
  A set of Python is the list of its elements without repetition. The order in which
  Python goes through a set is not fixed by the program; the list has some order.
\<close>

text \<open>\<^verbatim>\<open>_expand_param_names\<close>\<close>

fun expand_param_names :: "registry \<Rightarrow> string list \<Rightarrow> error + string list" where
  "expand_param_names reg [] = Inr []"
| "expand_param_names reg (key # keys) =
     (case map_of reg key of
        None \<Rightarrow> Inl (KeyError key)
      | Some param \<Rightarrow>
         (case expand_param_names reg keys of
            Inl e \<Rightarrow> Inl e
          | Inr names \<Rightarrow> Inr (param_names param @ names)))"

text \<open>\<^verbatim>\<open>_expanded_names_to_names\<close>\<close>

definition expanded_names_to_names :: "registry \<Rightarrow> string list \<Rightarrow> error + string list" where
  "expanded_names_to_names reg names =
     (let param_names_set = remdups names;
          res = foldl (\<lambda>res (name, param). AList.update name param res) []
                  (concat (map (\<lambda>param. map (\<lambda>name. (name, param))
                                          (filter (\<lambda>name. name \<in> set param_names_set) (param_names param)))
                               (map snd reg)));
          missing = filter (\<lambda>name. name \<notin> set (map fst res)) param_names_set
      in if length missing > 0 then Inl (UnknownParams missing)
         else Inr (remdups (map (\<lambda>(name, param). param_name param) res)))"

section \<open>Compiling a model\<close>

text \<open>
  What the functions of this file use and the repository has elsewhere, or takes from a
  library: \<^verbatim>\<open>_completeParamValues\<close>, the registry, \<^verbatim>\<open>_actName\<close>, \<^verbatim>\<open>newActivity\<close>, the
  results of \<^verbatim>\<open>bw.MultiLCA\<close> (one row for each activity, one column for each method), and
  the names of the free symbols that sympy finds in an expression.
\<close>

record env =
  completeParamValues :: "(string \<times> pyvalue) list \<Rightarrow> error + (string \<times> pyvalue) list"
  param_registry :: registry
  actName :: "activity \<Rightarrow> string"
  newActivity :: "string \<Rightarrow> string \<Rightarrow> string \<Rightarrow> activity \<Rightarrow> string \<Rightarrow> activity"
  bw_MultiLCA :: "database \<Rightarrow> activity list \<Rightarrow> impact_method list \<Rightarrow> error + real list list"
  sympy_free_symbols :: "expr \<Rightarrow> string list"

text \<open>\<^verbatim>\<open>_multiLCA\<close>: the table of the results, one row for each method.\<close>

definition priv_multiLCA :: "env \<Rightarrow> database \<Rightarrow> activity list \<Rightarrow> impact_method list
     \<Rightarrow> error + real list list" where
  "priv_multiLCA ev db activities methods =
     (case bw_MultiLCA ev db activities methods of
        Inl e \<Rightarrow> Inl e
      | Inr results \<Rightarrow>
          if length results = length activities \<and> list_all (\<lambda>row. length row = length methods) results
          then Inr (map (\<lambda>imethod. map (\<lambda>row. row ! imethod) results) [0..<length methods])
          else Inl ValueError)"

text \<open>\<^verbatim>\<open>_getOrCreateDummyBiosphereActCopy\<close>: the activity, and the database with it.\<close>

definition getOrCreateDummyBiosphereActCopy :: "env \<Rightarrow> config \<Rightarrow> database \<Rightarrow> string \<Rightarrow> string
     \<Rightarrow> error + activity \<times> database" where
  "getOrCreateDummyBiosphereActCopy ev cfg db dbname code =
     (let code_to_find = code @ ''#asTech'' in
      case db (dbname, code_to_find) of
        Some act \<Rightarrow> Inr (act, db)
      | None \<Rightarrow>
         (case db (BIOSPHERE3_DB_NAME cfg, code) of
            None \<Rightarrow> Inl (DoesNotExist (BIOSPHERE3_DB_NAME cfg, code))
          | Some bioAct \<Rightarrow>
              let res = newActivity ev dbname (act_name bioAct @ '' # asTech'') (act_unit bioAct) bioAct
                          code_to_find
              in Inr (res, db((dbname, code_to_find) \<mapsto> res))))"

text \<open>The loop of \<^verbatim>\<open>preMultiLCAAlgebric\<close> that builds \<open>pureTechActBySymbol\<close>.\<close>

fun pureTechActBySymbol_loop :: "env \<Rightarrow> config \<Rightarrow> string \<Rightarrow> (string \<times> key) list \<Rightarrow> database
     \<Rightarrow> error + (string \<times> activity) list \<times> database" where
  "pureTechActBySymbol_loop ev cfg dbname [] db = Inr ([], db)"
| "pureTechActBySymbol_loop ev cfg dbname ((name, act) # rest) db =
     (case (if fst act = BIOSPHERE3_DB_NAME cfg
            then getOrCreateDummyBiosphereActCopy ev cfg db dbname (snd act)
            else (case db act of None \<Rightarrow> Inl (DoesNotExist act) | Some a \<Rightarrow> Inr (a, db))) of
        Inl e \<Rightarrow> Inl e
      | Inr (a, db1) \<Rightarrow>
         (case pureTechActBySymbol_loop ev cfg dbname rest db1 of
            Inl e \<Rightarrow> Inl e
          | Inr (acts, db2) \<Rightarrow> Inr ((name, a) # acts, db2)))"

text \<open>\<^verbatim>\<open>expr.xreplace(sub)\<close>, for \<open>sub\<close> from symbols to numbers.\<close>

fun xreplace :: "(string \<rightharpoonup> real) \<Rightarrow> expr \<Rightarrow> expr" where
  "xreplace sub (Num r) = Num r"
| "xreplace sub (Symbol s) = (case sub s of None \<Rightarrow> Symbol s | Some r \<Rightarrow> Num r)"
| "xreplace sub (Add a b) = Add (xreplace sub a) (xreplace sub b)"
| "xreplace sub (Mul a b) = Mul (xreplace sub a) (xreplace sub b)"
| "xreplace sub (Div a b) = Div (xreplace sub a) (xreplace sub b)"

text \<open>
  \<^verbatim>\<open>preMultiLCAAlgebric\<close>. A Python number has no attribute \<^verbatim>\<open>free_symbols\<close>. The result
  is \<open>None\<close> when \<^verbatim>\<open>actToExpression\<close> does not return.
\<close>

definition preMultiLCAAlgebric :: "env \<Rightarrow> config \<Rightarrow> database \<Rightarrow> activity \<Rightarrow> impact_method list
     \<Rightarrow> (error + (compiled list \<times> string list) \<times> database) option" where
  "preMultiLCAAlgebric ev cfg db model methods =
     (case actToExpression cfg db model of
        None \<Rightarrow> None
      | Some (Inl e) \<Rightarrow> Some (Inl e)
      | Some (Inr (PyNum r, actBySymbolName)) \<Rightarrow> Some (Inl AttributeError)
      | Some (Inr (Sympy expr, actBySymbolName)) \<Rightarrow>
          Some (let dbname = act_database model;
                    free_names = remdups (sympy_free_symbols ev expr);
                    act_names = remdups (map fst actBySymbolName);
                    expected_names = filter (\<lambda>name. name \<notin> set act_names) free_names
                in case expanded_names_to_names (param_registry ev) expected_names of
                     Inl e \<Rightarrow> Inl e
                   | Inr names \<Rightarrow>
                      (case expand_param_names (param_registry ev) names of
                         Inl e \<Rightarrow> Inl e
                       | Inr expected_names \<Rightarrow>
                          (case pureTechActBySymbol_loop ev cfg dbname actBySymbolName db of
                             Inl e \<Rightarrow> Inl e
                           | Inr (pureTechActBySymbol, db1) \<Rightarrow>
                              (case priv_multiLCA ev db1 (map snd pureTechActBySymbol) methods of
                                 Inl e \<Rightarrow> Inl e
                               | Inr lca \<Rightarrow>
                                   Inr ((map (\<lambda>imethod.
                                           lambdify expected_names
                                             (xreplace (map_of (zip (map fst pureTechActBySymbol) (lca ! imethod)))
                                                expr))
                                         [0..<length methods],
                                        expected_names), db1))))))"

section \<open>Several models\<close>

text \<open>A model, alone or in a tuple with its amount \<open>alpha\<close>.\<close>

datatype model_arg = Model activity | ModelAmount activity real

text \<open>\<^verbatim>\<open>alpha = 1; if type(model) is tuple: model, alpha = model\<close>\<close>

fun model_of :: "model_arg \<Rightarrow> activity" where
  "model_of (Model a) = a"
| "model_of (ModelAmount a alpha) = a"

fun alpha_of :: "model_arg \<Rightarrow> real" where
  "alpha_of (Model a) = 1"
| "alpha_of (ModelAmount a alpha) = alpha"

text \<open>The argument \<open>models\<close>: a list, or something else.\<close>

datatype models_arg = NoList model_arg | ModelList "model_arg list"

text \<open>The loop that gives the parameters that \<open>params\<close> lacks their default value.\<close>

fun default_loop :: "registry \<Rightarrow> string list \<Rightarrow> (string \<times> pyvalue) list
     \<Rightarrow> error + (string \<times> pyvalue) list" where
  "default_loop reg [] params = Inr params"
| "default_loop reg (expected_name # rest) params =
     (if expected_name \<notin> set (map fst params) then
        (case map_of reg expected_name of
           None \<Rightarrow> Inl (KeyError expected_name)
         | Some param \<Rightarrow> default_loop reg rest (params @ [(expected_name, param_default param)]))
      else default_loop reg rest params)"

text \<open>\<^verbatim>\<open>df.rename(index={0: model_name})\<close>\<close>

definition rename_index :: "string \<Rightarrow> dataframe \<Rightarrow> dataframe" where
  "rename_index model_name df =
     df\<lparr>df_index := map (\<lambda>l. if l = Position 0 then Name model_name else l) (df_index df)\<rparr>"

text \<open>\<^verbatim>\<open>pd.concat\<close> of tables that have the same columns.\<close>

definition pd_concat :: "dataframe list \<Rightarrow> error + dataframe" where
  "pd_concat dfs =
     (case dfs of
        [] \<Rightarrow> Inl ValueError
      | df # rest \<Rightarrow>
          Inr \<lparr>df_index = concat (map df_index dfs), df_columns = df_columns df,
               df_values = concat (map df_values dfs)\<rparr>)"

text \<open>
  The loop of \<^verbatim>\<open>multiLCAAlgebric\<close> over the models, with the variables that it updates:
  the database, \<open>params\<close> and the dict \<open>dfs\<close>. What it prints is left out.
\<close>

fun models_loop :: "env \<Rightarrow> config \<Rightarrow> impact_method list \<Rightarrow> model_arg list \<Rightarrow> database
     \<Rightarrow> (string \<times> pyvalue) list \<Rightarrow> (string \<times> dataframe) list
     \<Rightarrow> (error + (string \<times> dataframe) list \<times> database \<times> (string \<times> pyvalue) list) option" where
  "models_loop ev cfg methods [] db params dfs = Some (Inr (dfs, db, params))"
| "models_loop ev cfg methods (m # rest) db params dfs =
     (case preMultiLCAAlgebric ev cfg db (model_of m) methods of
        None \<Rightarrow> None
      | Some (Inl e) \<Rightarrow> Some (Inl e)
      | Some (Inr ((lambdas, expected_names), db1)) \<Rightarrow>
         (case expanded_names_to_names (param_registry ev) expected_names of
            Inl e \<Rightarrow> Some (Inl e)
          | Inr expected_params \<Rightarrow>
             (case default_loop (param_registry ev) expected_params params of
                Inl e \<Rightarrow> Some (Inl e)
              | Inr params1 \<Rightarrow>
                 (case postMultiLCAAlgebric (completeParamValues ev) methods lambdas (alpha_of m)
                         (filter (\<lambda>(key, val). key \<in> set expected_params) params1) of
                    Inl e \<Rightarrow> Some (Inl e)
                  | Inr df \<Rightarrow>
                      let model_name = actName ev (model_of m);
                          df1 = (if length (df_values df) = 1 then rename_index model_name df else df)
                      in models_loop ev cfg methods rest db1 params1 (AList.update model_name df1 dfs)))))"

definition multiLCAAlgebric :: "env \<Rightarrow> config \<Rightarrow> database \<Rightarrow> models_arg \<Rightarrow> impact_method list
     \<Rightarrow> (string \<times> pyvalue) list \<Rightarrow> (error + dataframe) option" where
  "multiLCAAlgebric ev cfg db models methods params =
     (case models_loop ev cfg methods (case models of NoList m \<Rightarrow> [m] | ModelList ms \<Rightarrow> ms) db params [] of
        None \<Rightarrow> None
      | Some (Inl e) \<Rightarrow> Some (Inl e)
      | Some (Inr (dfs, db1, params1)) \<Rightarrow>
          if length dfs = 1 then Some (Inr (snd (hd dfs))) else Some (pd_concat (map snd dfs)))"

text \<open>An example: the model \<open>M\<close> with the parameter \<open>p\<close> of default 3.\<close>

fun symbols_of :: "expr \<Rightarrow> string list" where
  "symbols_of (Num r) = []"
| "symbols_of (Symbol s) = [s]"
| "symbols_of (Add a b) = symbols_of a @ symbols_of b"
| "symbols_of (Mul a b) = symbols_of a @ symbols_of b"
| "symbols_of (Div a b) = symbols_of a @ symbols_of b"

definition env_ex :: env where
  "env_ex = \<lparr>completeParamValues = Inr,
     param_registry = [(''p'', \<lparr>param_name = ''p'', param_names = [''p''], param_default = PyFloat 3\<rparr>)],
     actName = act_name,
     newActivity = (\<lambda>dbname name unit bioAct code. mk_act (dbname, code) name []),
     bw_MultiLCA = (\<lambda>db activities methods.
        Inr (map (\<lambda>a. map (\<lambda>m. if act_code a = ''bg1'' then 10 else 4) methods) activities)),
     sympy_free_symbols = symbols_of\<rparr>"


section \<open>A required parameter that the registry does not know\<close>

lemma foldl_update_keys:
  "fst ` set (foldl (\<lambda>res (name, param). AList.update name param res) acc items) =
     fst ` set acc \<union> fst ` set items"
proof (induction items arbitrary: acc)
  case Nil
  show ?case by simp
next
  case (Cons item items)
  obtain name param where item: "item = (name, param)" by (cases item)
  show ?case unfolding item by (simp add: Cons.IH dom_update)
qed

text \<open>The names that \<^verbatim>\<open>names()\<close> returns for some parameter of the registry.\<close>

definition registered_names :: "registry \<Rightarrow> string set" where
  "registered_names reg = (\<Union>param \<in> set (map snd reg). set (param_names param))"

lemma expanded_names_to_names_unknown:
  assumes "s \<in> set names" and "s \<notin> registered_names reg"
  shows "\<exists>missing. s \<in> set missing \<and> expanded_names_to_names reg names = Inl (UnknownParams missing)"
proof -
  let ?items = "concat (map (\<lambda>param. map (\<lambda>name. (name, param))
                  (filter (\<lambda>name. name \<in> set (remdups names)) (param_names param))) (map snd reg))"
  let ?res = "foldl (\<lambda>res (name, param). AList.update name param res) [] ?items"
  let ?missing = "filter (\<lambda>name. name \<notin> set (map fst ?res)) (remdups names)"
  have "set (map fst ?items) \<subseteq> registered_names reg"
    by (auto simp: registered_names_def)
  with assms(2) have "s \<notin> set (map fst ?res)"
    using foldl_update_keys[of "[]" ?items] by auto
  with assms(1) have s: "s \<in> set ?missing" by simp
  then have "length ?missing > 0" by (auto simp: length_greater_0_conv simp del: set_filter)
  then have "expanded_names_to_names reg names = Inl (UnknownParams ?missing)"
    unfolding expanded_names_to_names_def Let_def by (rule if_P)
  with s show ?thesis by blast
qed

text \<open>
  Claim C8. The model's expression has a free symbol \<open>s\<close> that is not the symbol of an
  activity, so it is the name of a parameter that the evaluation needs, and no parameter of
  the registry has this name. Then \<^verbatim>\<open>multiLCAAlgebric\<close> fails with the error of the
  unknown parameters, whatever parameters it is given, for the model alone and for a list
  of models that starts with it.
\<close>

theorem unknown_parameter_aborts:
  assumes "actToExpression cfg db (model_of m) = Some (Inr (Sympy e, actBySymbolName))"
    and "s \<in> set (sympy_free_symbols ev e)"
    and "s \<notin> set (map fst actBySymbolName)"
    and "s \<notin> registered_names (param_registry ev)"
  shows "\<exists>missing. s \<in> set missing
     \<and> multiLCAAlgebric ev cfg db (NoList m) methods params = Some (Inl (UnknownParams missing))
     \<and> multiLCAAlgebric ev cfg db (ModelList (m # rest)) methods params = Some (Inl (UnknownParams missing))"
proof -
  let ?expected = "filter (\<lambda>name. name \<notin> set (remdups (map fst actBySymbolName)))
      (remdups (sympy_free_symbols ev e))"
  from assms(2,3) have "s \<in> set ?expected" by simp
  from expanded_names_to_names_unknown[OF this assms(4)]
  obtain missing where s: "s \<in> set missing"
    and u: "expanded_names_to_names (param_registry ev) ?expected = Inl (UnknownParams missing)"
    by blast
  have pre: "preMultiLCAAlgebric ev cfg db (model_of m) methods = Some (Inl (UnknownParams missing))"
    using assms(1) u by (simp add: preMultiLCAAlgebric_def)
  have "models_loop ev cfg methods (m # ms) db params [] = Some (Inl (UnknownParams missing))" for ms
    using pre by simp
  then have "multiLCAAlgebric ev cfg db (NoList m) methods params = Some (Inl (UnknownParams missing))"
    "multiLCAAlgebric ev cfg db (ModelList (m # rest)) methods params = Some (Inl (UnknownParams missing))"
    by (simp_all add: multiLCAAlgebric_def)
  with s show ?thesis by blast
qed

text \<open>The registry knows \<open>q\<close> only; the model \<open>M\<close> needs \<open>p\<close>.\<close>

definition env_q :: env where
  "env_q = env_ex\<lparr>param_registry :=
     [(''q'', \<lparr>param_name = ''q'', param_names = [''q''], param_default = PyFloat 1\<rparr>)]\<rparr>"

lemma actToExpression_act_M:
  "actToExpression cfg_ex db_ex act_M =
     Some (Inr (Sympy expr_M, [(''elec_mix'', (''ecoinvent'', ''bg1'')), (''elec_mix1'', (''ecoinvent'', ''bg2''))]))"
  by code_simp

lemma multiLCAAlgebric_env_q:
  "multiLCAAlgebric env_q cfg_ex db_ex (NoList (Model act_M)) ex_methods [(''p'', PyFloat 3)] =
     Some (Inl (UnknownParams [''p'']))"
  by code_simp

theorem unknown_parameter_aborts_witness:
  "actToExpression cfg_ex db_ex (model_of (Model act_M)) =
     Some (Inr (Sympy expr_M, [(''elec_mix'', (''ecoinvent'', ''bg1'')), (''elec_mix1'', (''ecoinvent'', ''bg2''))]))
   \<and> ''p'' \<in> set (sympy_free_symbols env_q expr_M)
   \<and> ''p'' \<notin> registered_names (param_registry env_q)
   \<and> multiLCAAlgebric env_q cfg_ex db_ex (NoList (Model act_M)) ex_methods [(''p'', PyFloat 3)] =
       Some (Inl (UnknownParams [''p'']))"
proof -
  have h1: "actToExpression cfg_ex db_ex (model_of (Model act_M)) =
     Some (Inr (Sympy expr_M, [(''elec_mix'', (''ecoinvent'', ''bg1'')), (''elec_mix1'', (''ecoinvent'', ''bg2''))]))"
    using actToExpression_act_M by simp
  have h2: "''p'' \<in> set (sympy_free_symbols env_q expr_M)"
    by (simp add: env_q_def env_ex_def expr_M_def)
  have h3: "''p'' \<notin> set (map fst [(''elec_mix'', (''ecoinvent'', ''bg1'')), (''elec_mix1'', (''ecoinvent'', ''bg2''))])"
    by simp
  have h4: "''p'' \<notin> registered_names (param_registry env_q)"
    by (simp add: env_q_def env_ex_def registered_names_def)
  from unknown_parameter_aborts[OF h1 h2 h3 h4, of ex_methods "[(''p'', PyFloat 3)]" "[]"]
  obtain missing where
    "multiLCAAlgebric env_q cfg_ex db_ex (NoList (Model act_M)) ex_methods [(''p'', PyFloat 3)] =
       Some (Inl (UnknownParams missing))"
    by blast
  then have "multiLCAAlgebric env_q cfg_ex db_ex (NoList (Model act_M)) ex_methods [(''p'', PyFloat 3)] =
       Some (Inl (UnknownParams [''p'']))"
    using multiLCAAlgebric_env_q by simp
  with h1 h2 h4 show ?thesis by (intro conjI)
qed

section \<open>Models that share their display name\<close>

text \<open>
  One iteration of the loop of \<^verbatim>\<open>multiLCAAlgebric\<close>: the name of the model with its
  table, the database and \<open>params\<close> after it.
\<close>

definition model_step :: "env \<Rightarrow> config \<Rightarrow> impact_method list \<Rightarrow> model_arg \<Rightarrow> database
     \<Rightarrow> (string \<times> pyvalue) list
     \<Rightarrow> (error + (string \<times> dataframe) \<times> database \<times> (string \<times> pyvalue) list) option" where
  "model_step ev cfg methods m db params =
     (case models_loop ev cfg methods [m] db params [] of
        None \<Rightarrow> None
      | Some (Inl e) \<Rightarrow> Some (Inl e)
      | Some (Inr (dfs, db1, params1)) \<Rightarrow> Some (Inr (hd dfs, db1, params1)))"

lemma models_loop_Cons:
  "models_loop ev cfg methods (m # rest) db params dfs =
     (case model_step ev cfg methods m db params of
        None \<Rightarrow> None
      | Some (Inl e) \<Rightarrow> Some (Inl e)
      | Some (Inr ((model_name, df), db1, params1)) \<Rightarrow>
          models_loop ev cfg methods rest db1 params1 (AList.update model_name df dfs))"
  by (simp add: model_step_def Let_def split: option.splits sum.splits prod.splits)

lemma model_step_name:
  assumes "model_step ev cfg methods m db params = Some (Inr ((model_name, df), db1, params1))"
  shows "model_name = actName ev (model_of m)"
  using assms
  by (auto simp: model_step_def Let_def split: option.splits sum.splits prod.splits if_splits)

abbreviation display_names :: "env \<Rightarrow> model_arg list \<Rightarrow> string list" where
  "display_names ev models \<equiv> map (\<lambda>m. actName ev (model_of m)) models"

lemma models_loop_keys:
  assumes "models_loop ev cfg methods models db params dfs0 = Some (Inr (dfs, db', params'))"
  shows "fst ` set dfs = fst ` set dfs0 \<union> set (display_names ev models)
     \<and> (distinct (map fst dfs0) \<longrightarrow> distinct (map fst dfs))"
  using assms
proof (induction models arbitrary: db params dfs0)
  case Nil
  then show ?case by simp
next
  case (Cons m rest)
  from Cons.prems obtain model_name df db1 params1 where
    step: "model_step ev cfg methods m db params = Some (Inr ((model_name, df), db1, params1))"
    and rest: "models_loop ev cfg methods rest db1 params1 (AList.update model_name df dfs0) =
        Some (Inr (dfs, db', params'))"
    unfolding models_loop_Cons by (auto split: option.splits sum.splits prod.splits)
  from model_step_name[OF step] have name: "model_name = actName ev (model_of m)" .
  from Cons.IH[OF rest] show ?case
    by (auto simp: name dom_update distinct_update)
qed

lemma models_loop_keeps:
  assumes "models_loop ev cfg methods models db params dfs0 = Some (Inr (dfs, db', params'))"
    and "n \<notin> set (display_names ev models)"
  shows "map_of dfs n = map_of dfs0 n"
  using assms
proof (induction models arbitrary: db params dfs0)
  case Nil
  then show ?case by simp
next
  case (Cons m rest)
  from Cons.prems(1) obtain model_name df db1 params1 where
    step: "model_step ev cfg methods m db params = Some (Inr ((model_name, df), db1, params1))"
    and rest: "models_loop ev cfg methods rest db1 params1 (AList.update model_name df dfs0) =
        Some (Inr (dfs, db', params'))"
    unfolding models_loop_Cons by (auto split: option.splits sum.splits prod.splits)
  from model_step_name[OF step] have name: "model_name = actName ev (model_of m)" .
  from Cons.prems(2) have "n \<noteq> model_name" "n \<notin> set (display_names ev rest)" by (auto simp: name)
  with Cons.IH[OF rest] show ?case by (simp add: update_conv')
qed

lemma models_loop_append:
  "models_loop ev cfg methods (pre @ post) db params dfs =
     (case models_loop ev cfg methods pre db params dfs of
        None \<Rightarrow> None
      | Some (Inl e) \<Rightarrow> Some (Inl e)
      | Some (Inr (dfs1, db1, params1)) \<Rightarrow> models_loop ev cfg methods post db1 params1 dfs1)"
proof (induction pre arbitrary: db params dfs)
  case Nil
  show ?case by simp
next
  case (Cons m pre)
  show ?case
    unfolding append_Cons models_loop_Cons
    by (simp add: Cons.IH split: option.splits sum.splits prod.splits)
qed

text \<open>
  Claim C9. When the loop over the models has returned the dict \<open>dfs\<close>: the table that
  \<^verbatim>\<open>multiLCAAlgebric\<close> returns is made of the tables of \<open>dfs\<close>; \<open>dfs\<close> has one table for each
  display name, not for each model; the table that it has for a name is the one of the
  last model with this name, computed in the state that the loop is in after the models
  before it; so when the names of the models are not all distinct, \<open>dfs\<close> has fewer tables
  than there are models.
\<close>

theorem tables_are_keyed_by_display_name:
  assumes "models_loop ev cfg methods models db params [] = Some (Inr (dfs, db', params'))"
  shows "multiLCAAlgebric ev cfg db (ModelList models) methods params =
           (if length dfs = 1 then Some (Inr (snd (hd dfs))) else Some (pd_concat (map snd dfs)))
     \<and> distinct (map fst dfs) \<and> set (map fst dfs) = set (display_names ev models)
     \<and> (\<forall>pre m post. models = pre @ m # post
            \<and> actName ev (model_of m) \<notin> set (display_names ev post) \<longrightarrow>
          (\<exists>dfs1 db1 params1 df db2 params2.
             models_loop ev cfg methods pre db params [] = Some (Inr (dfs1, db1, params1))
             \<and> model_step ev cfg methods m db1 params1 =
                 Some (Inr ((actName ev (model_of m), df), db2, params2))
             \<and> map_of dfs (actName ev (model_of m)) = Some df))
     \<and> (\<not> distinct (display_names ev models) \<longrightarrow> length dfs < length models)"
proof (intro conjI allI impI)
  show "multiLCAAlgebric ev cfg db (ModelList models) methods params =
      (if length dfs = 1 then Some (Inr (snd (hd dfs))) else Some (pd_concat (map snd dfs)))"
    using assms by (simp add: multiLCAAlgebric_def)
  from models_loop_keys[OF assms]
  show d: "distinct (map fst dfs)" and k: "set (map fst dfs) = set (display_names ev models)"
    by simp_all
  show "length dfs < length models" if "\<not> distinct (display_names ev models)"
  proof -
    have "length dfs = card (set (map fst dfs))"
      using d distinct_card[of "map fst dfs"] by simp
    also have "\<dots> = card (set (display_names ev models))" by (simp only: k)
    also have "\<dots> < length (display_names ev models)"
      using that card_length[of "display_names ev models"] card_distinct[of "display_names ev models"]
      by linarith
    finally show ?thesis by simp
  qed
  fix pre m post
  assume h: "models = pre @ m # post \<and> actName ev (model_of m) \<notin> set (display_names ev post)"
  with assms have run: "models_loop ev cfg methods (pre @ [m] @ post) db params [] =
      Some (Inr (dfs, db', params'))" by simp
  then obtain dfs1 db1 params1 where
    pre: "models_loop ev cfg methods pre db params [] = Some (Inr (dfs1, db1, params1))"
    and tail: "models_loop ev cfg methods ([m] @ post) db1 params1 dfs1 = Some (Inr (dfs, db', params'))"
    unfolding models_loop_append[of ev cfg methods pre] by (auto split: option.splits sum.splits)
  from tail obtain model_name df db2 params2 where
    step: "model_step ev cfg methods m db1 params1 = Some (Inr ((model_name, df), db2, params2))"
    and post: "models_loop ev cfg methods post db2 params2 (AList.update model_name df dfs1) =
        Some (Inr (dfs, db', params'))"
    unfolding append_Cons append_Nil models_loop_Cons by (auto split: option.splits sum.splits prod.splits)
  from model_step_name[OF step] have name: "model_name = actName ev (model_of m)" .
  from models_loop_keeps[OF post, of "actName ev (model_of m)"] h
  have "map_of dfs (actName ev (model_of m)) = Some df"
    by (simp add: name update_conv')
  with pre step name
  show "\<exists>dfs1 db1 params1 df db2 params2.
      models_loop ev cfg methods pre db params [] = Some (Inr (dfs1, db1, params1))
      \<and> model_step ev cfg methods m db1 params1 = Some (Inr ((actName ev (model_of m), df), db2, params2))
      \<and> map_of dfs (actName ev (model_of m)) = Some df"
    by blast
qed


text \<open>A second model with the display name of \<open>M\<close>, in the database of \<open>M\<close>.\<close>

definition act_M2 :: activity where
  "act_M2 = mk_act (''fg'', ''M2'') ''model M''
     [mk_exch (''fg'', ''M2'') (''fg'', ''M2'') 1 (Value (PyNum 1)),
      mk_exch (''ecoinvent'', ''bg1'') (''fg'', ''M2'') 1 (Value (Sympy (Symbol ''p'')))]"

definition db_two :: database where
  "db_two = db_ex((''fg'', ''M2'') \<mapsto> act_M2)"

definition table_M :: dataframe where
  "table_M = \<lparr>df_index = [Name ''model M''], df_columns = [''GWP - 100a''], df_values = [[73]]\<rparr>"

definition table_M2 :: dataframe where
  "table_M2 = \<lparr>df_index = [Name ''model M''], df_columns = [''GWP - 100a''], df_values = [[30]]\<rparr>"

lemma models_loop_two:
  "map_option (map_sum id fst) (models_loop env_ex cfg_ex ex_methods [Model act_M, Model act_M2] db_two [] []) =
     Some (Inr [(''model M'', table_M2)])"
  by code_simp

lemma multiLCAAlgebric_act_M:
  "multiLCAAlgebric env_ex cfg_ex db_two (NoList (Model act_M)) ex_methods [] = Some (Inr table_M)"
  by code_simp

theorem tables_are_keyed_by_display_name_witness:
  "act_M \<noteq> act_M2
   \<and> display_names env_ex [Model act_M, Model act_M2] = [''model M'', ''model M'']
   \<and> multiLCAAlgebric env_ex cfg_ex db_two (NoList (Model act_M)) ex_methods [] = Some (Inr table_M)
   \<and> multiLCAAlgebric env_ex cfg_ex db_two (ModelList [Model act_M, Model act_M2]) ex_methods [] =
       Some (Inr table_M2)
   \<and> table_M \<noteq> table_M2"
proof -
  have h1: "act_M \<noteq> act_M2" by (simp add: act_M_def act_M2_def mk_act_def)
  have h2: "display_names env_ex [Model act_M, Model act_M2] = [''model M'', ''model M'']"
    by (simp add: env_ex_def act_M_def act_M2_def mk_act_def)
  have h3: "table_M \<noteq> table_M2" by (simp add: table_M_def table_M2_def)
  from models_loop_two obtain db' params' where run:
    "models_loop env_ex cfg_ex ex_methods [Model act_M, Model act_M2] db_two [] [] =
       Some (Inr ([(''model M'', table_M2)], db', params'))"
    by (cases "models_loop env_ex cfg_ex ex_methods [Model act_M, Model act_M2] db_two [] []")
       (auto simp: map_sum_def split: sum.splits)
  from tables_are_keyed_by_display_name[OF run]
  have "multiLCAAlgebric env_ex cfg_ex db_two (ModelList [Model act_M, Model act_M2]) ex_methods [] =
      (if length [(''model M'', table_M2)] = 1 then Some (Inr (snd (hd [(''model M'', table_M2)])))
       else Some (pd_concat (map snd [(''model M'', table_M2)])))"
    by (elim conjE)
  then have "multiLCAAlgebric env_ex cfg_ex db_two (ModelList [Model act_M, Model act_M2]) ex_methods [] =
      Some (Inr table_M2)" by simp
  with h1 h2 h3 multiLCAAlgebric_act_M show ?thesis by (intro conjI)
qed

end
